theory Spec2Isabelle
  imports Complex_Main
begin

section \<open>Shared data types (utils.py)\<close>

text \<open>
  Python floats are modelled as HOL reals: rounding, infinities and NaN are outside the
  model. Python ints are unbounded and are modelled as \<open>int\<close>. Every exception the
  modelled code can raise is a value of \<open>error\<close>.
\<close>

datatype error = ZeroDivisionError | NameError string | TypeError | ValueError | CvError

record BoundingBox =
  x_min :: real
  y_min :: real
  x_max :: real
  y_max :: real

definition width :: "BoundingBox \<Rightarrow> real" where
  "width b = x_max b - x_min b"

definition height :: "BoundingBox \<Rightarrow> real" where
  "height b = y_max b - y_min b"

definition area :: "BoundingBox \<Rightarrow> real" where
  "area b = width b * height b"

record FaceDetectionResult =
  boxes :: "BoundingBox list"
  confidences :: "real list"
  timestamp_ms :: int

text \<open>
  The reason of a decision is an f-string in the source. The model keeps which template
  was used and the values formatted into it:
  \<^item> \<open>NoReason\<close>: the empty string;
  \<^item> \<open>RiskOther n a\<close>: "Risk: n OTHER face(s) detected (area: a)";
  \<^item> \<open>RiskFaces t n\<close>: "Risk: t faces, n above threshold";
  \<^item> \<open>SafeIdentity m n\<close>: "Safe: m ME, n OTHER";
  \<^item> \<open>SafeFaces t\<close>: "Safe: t faces detected";
  \<^item> \<open>HoldingBlur s f\<close>: "Holding blur (s s, f frames)".
\<close>

datatype reason_text =
    NoReason
  | RiskOther int real
  | RiskFaces int int
  | SafeIdentity int int
  | SafeFaces int
  | HoldingBlur real int

record PrivacyDecision =
  decision_privacy_on :: bool
  reason :: reason_text
  risk_score :: real
  other_face_count :: int

section \<open>Identity records (verify.py)\<close>

record FaceIdentity =
  label :: string
  identity_similarity :: real
  box :: BoundingBox
  embedding :: "real list"

section \<open>Privacy decision engine (decision.py)\<close>

record PrivacyDecisionEngine =
  face_count_threshold :: int
  area_ratio_threshold :: real
  debounce_on_frames :: int
  debounce_off_seconds :: real
  debounce_off_frames :: int
  use_identity_verification :: bool
  privacy_on :: bool
  risk_counter :: int
  safe_frame_counter :: int
  safe_start_time :: "real option"
  decision_history :: "(real \<times> PrivacyDecision) list"
  last_other_positions :: "(real \<times> real) list"
  position_stability_frames :: int

text \<open>The constructor \<open>__init__\<close>, with its six parameters.\<close>

definition init :: "int \<Rightarrow> real \<Rightarrow> int \<Rightarrow> real \<Rightarrow> int \<Rightarrow> bool \<Rightarrow> PrivacyDecisionEngine" where
  "init fct art don doff_s doff_f uiv =
     \<lparr> face_count_threshold = fct,
       area_ratio_threshold = art,
       debounce_on_frames = don,
       debounce_off_seconds = doff_s,
       debounce_off_frames = doff_f,
       use_identity_verification = uiv,
       privacy_on = False,
       risk_counter = 0,
       safe_frame_counter = 0,
       safe_start_time = None,
       decision_history = [],
       last_other_positions = [],
       position_stability_frames = 5 \<rparr>"

text \<open>
  \<open>decide\<close> reads the wall clock at three places: when it sets \<open>safe_start_time\<close>,
  when it computes \<open>time_safe\<close>, and when it appends to the history. The three values
  read during one call are an input of the model.
\<close>

record clock_reads =
  t_safe_start :: real
  t_time_safe :: real
  t_history :: real

text \<open>
  The body shared by the two \<open>for\<close> loops of \<open>decide\<close> (over the boxes of the
  OTHER identities, and over all detected boxes): the accumulator is the pair of the
  face counter and \<open>risk_score\<close>. The division \<open>box_area_pixels / frame_area\<close>
  raises when \<open>frame_area\<close> is zero.
\<close>

fun count_faces :: "real \<Rightarrow> int \<Rightarrow> BoundingBox list \<Rightarrow> int \<times> real \<Rightarrow> error + (int \<times> real)" where
  "count_faces thr frame_area [] acc = Inr acc"
| "count_faces thr frame_area (b # bs) (n, risk) =
     (let box_area_normalized = area b;
          box_area_pixels = box_area_normalized * of_int frame_area
      in if frame_area = 0 then Inl ZeroDivisionError
         else let area_ratio = box_area_pixels / of_int frame_area
              in if area_ratio \<ge> thr
                 then count_faces thr frame_area bs (n + 1, max risk area_ratio)
                 else count_faces thr frame_area bs (n, risk))"

text \<open>
  The first half of \<open>decide\<close>: \<open>other_face_count\<close> (here \<open>n_other\<close>),
  \<open>risk_score\<close> (here \<open>risk\<close>), \<open>me_face_count\<close> and \<open>total_faces\<close>, in the
  verified and in the unverified mode. The local names differ from the source's where
  they would clash with a field of the decision record.
\<close>

definition assess_unverified ::
  "PrivacyDecisionEngine \<Rightarrow> FaceDetectionResult \<Rightarrow> int \<Rightarrow> error + (int \<times> real \<times> int \<times> int)" where
  "assess_unverified self detection_result frame_area =
     (case count_faces (area_ratio_threshold self) frame_area (boxes detection_result) (0, 0) of
        Inl e \<Rightarrow> Inl e
      | Inr (visible_face_count, risk) \<Rightarrow>
          Inr (max 0 (visible_face_count - 1), risk,
               (if visible_face_count > 0 then 1 else 0),
               int (length (boxes detection_result))))"

definition assess_verified ::
  "PrivacyDecisionEngine \<Rightarrow> int \<Rightarrow> FaceIdentity list \<Rightarrow> error + (int \<times> real \<times> int \<times> int)" where
  "assess_verified self frame_area ids =
     (let other_faces = filter (\<lambda>f. label f = ''OTHER'') ids
      in case count_faces (area_ratio_threshold self) frame_area (map box other_faces) (0, 0) of
           Inl e \<Rightarrow> Inl e
         | Inr (n_other, risk) \<Rightarrow>
             Inr (n_other, risk,
                  int (length (filter (\<lambda>f. label f = ''ME'') ids)),
                  int (length ids)))"

definition assess ::
  "PrivacyDecisionEngine \<Rightarrow> FaceDetectionResult \<Rightarrow> int \<Rightarrow> FaceIdentity list option
     \<Rightarrow> error + (int \<times> real \<times> int \<times> int)" where
  "assess self detection_result frame_area identities =
     (case identities of
        Some ids \<Rightarrow>
          (if use_identity_verification self
           then assess_verified self frame_area ids
           else assess_unverified self detection_result frame_area)
      | None \<Rightarrow> assess_unverified self detection_result frame_area)"

text \<open>The debounce logic: the engine after the tick, and the reason.\<close>

definition debounce ::
  "PrivacyDecisionEngine \<Rightarrow> clock_reads \<Rightarrow> int \<Rightarrow> real \<Rightarrow> int \<Rightarrow> int
     \<Rightarrow> PrivacyDecisionEngine \<times> reason_text" where
  "debounce self clk n_other risk me_face_count total_faces =
     (let is_risky = n_other \<ge> face_count_threshold self in
      if is_risky then
        (let s1 = self\<lparr> risk_counter := risk_counter self + 1,
                        safe_frame_counter := 0,
                        safe_start_time := None \<rparr>
         in if risk_counter s1 \<ge> debounce_on_frames s1
            then (s1\<lparr> privacy_on := True \<rparr>,
                  if use_identity_verification s1
                  then RiskOther n_other risk
                  else RiskFaces total_faces n_other)
            else (s1, NoReason))
      else
        (let s1 = self\<lparr> risk_counter := 0,
                        safe_frame_counter := safe_frame_counter self + 1 \<rparr>;
             start = (case safe_start_time s1 of
                        None \<Rightarrow> t_safe_start clk
                      | Some t \<Rightarrow> t);
             s2 = s1\<lparr> safe_start_time := Some start \<rparr>;
             time_safe = t_time_safe clk - start
         in if time_safe \<ge> debounce_off_seconds s2
               \<and> safe_frame_counter s2 \<ge> debounce_off_frames s2
            then (s2\<lparr> privacy_on := False, safe_frame_counter := 0 \<rparr>,
                  if use_identity_verification s2
                  then SafeIdentity me_face_count n_other
                  else SafeFaces total_faces)
            else (let remaining_time = max 0 (debounce_off_seconds s2 - time_safe);
                      remaining_frames = max 0 (debounce_off_frames s2 - safe_frame_counter s2)
                  in (s2, HoldingBlur remaining_time remaining_frames))))"

text \<open>
  \<open>decide\<close>: the engine is passed in and returned. The history keeps its last 100
  entries (\<open>decision_history[-100:]\<close> when it is longer than 100).
\<close>

definition decide ::
  "PrivacyDecisionEngine \<Rightarrow> FaceDetectionResult \<Rightarrow> int \<Rightarrow> int \<Rightarrow> FaceIdentity list option
     \<Rightarrow> clock_reads \<Rightarrow> error + (PrivacyDecision \<times> PrivacyDecisionEngine)" where
  "decide self detection_result frame_width frame_height identities clk =
     (let frame_area = frame_width * frame_height in
      case assess self detection_result frame_area identities of
        Inl e \<Rightarrow> Inl e
      | Inr (n_other, risk, me_face_count, total_faces) \<Rightarrow>
          (let (s, why) = debounce self clk n_other risk me_face_count total_faces;
               decision = \<lparr> decision_privacy_on = privacy_on s,
                            reason = why,
                            risk_score = risk,
                            other_face_count = n_other \<rparr>;
               history = decision_history s @ [(t_history clk, decision)]
           in Inr (decision,
                   s\<lparr> decision_history :=
                        (if length history > 100
                         then drop (length history - 100) history
                         else history) \<rparr>)))"

text \<open>
  A sequence of \<open>decide\<close> calls on one engine, as the main loop makes them: each tick
  carries the arguments of the call and the clock values read during it. An exception
  ends the sequence.
\<close>

record tick =
  tick_detection :: FaceDetectionResult
  tick_width :: int
  tick_height :: int
  tick_identities :: "FaceIdentity list option"
  tick_clock :: clock_reads

fun run :: "PrivacyDecisionEngine \<Rightarrow> tick list
              \<Rightarrow> error + (PrivacyDecision list \<times> PrivacyDecisionEngine)" where
  "run self [] = Inr ([], self)"
| "run self (t # ts) =
     (case decide self (tick_detection t) (tick_width t) (tick_height t)
             (tick_identities t) (tick_clock t) of
        Inl e \<Rightarrow> Inl e
      | Inr (d, s) \<Rightarrow>
          (case run s ts of
             Inl e \<Rightarrow> Inl e
           | Inr (ds, s') \<Rightarrow> Inr (d # ds, s')))"

section \<open>Overlap suppression of the face detector (detector.py)\<close>

text \<open>
  A candidate detection is a dict with the keys \<open>box\<close>, \<open>confidence\<close>, \<open>area\<close> and
  \<open>cascade\<close> in the source; a box is the tuple \<open>(x_min, y_min, x_max, y_max)\<close>.
\<close>

type_synonym box4 = "real \<times> real \<times> real \<times> real"

record detection =
  det_box :: box4
  det_confidence :: real
  det_area :: real
  det_cascade :: string

definition compute_iou :: "box4 \<Rightarrow> box4 \<Rightarrow> real" where
  "compute_iou box1 box2 =
     (case box1 of (x1_min, y1_min, x1_max, y1_max) \<Rightarrow>
      case box2 of (x2_min, y2_min, x2_max, y2_max) \<Rightarrow>
        (let inter_x_min = max x1_min x2_min;
             inter_y_min = max y1_min y2_min;
             inter_x_max = min x1_max x2_max;
             inter_y_max = min y1_max y2_max
         in if inter_x_max \<le> inter_x_min \<or> inter_y_max \<le> inter_y_min then 0
            else
              (let inter_area = (inter_x_max - inter_x_min) * (inter_y_max - inter_y_min);
                   box1_area = (x1_max - x1_min) * (y1_max - y1_min);
                   box2_area = (x2_max - x2_min) * (y2_max - y2_min);
                   union_area = box1_area + box2_area - inter_area
               in if union_area > 0 then inter_area / union_area else 0)))"

text \<open>The inner loop of \<open>_nms\<close>, with its \<open>break\<close>: the value of \<open>should_keep\<close>.\<close>

fun should_keep :: "real \<Rightarrow> detection \<Rightarrow> detection list \<Rightarrow> bool" where
  "should_keep iou_threshold current [] = True"
| "should_keep iou_threshold current (kept_det # ks) =
     (if compute_iou (det_box current) (det_box kept_det) > iou_threshold then False
      else should_keep iou_threshold current ks)"

text \<open>The outer loop of \<open>_nms\<close>: \<open>kept\<close> grows at its end.\<close>

fun nms_loop :: "real \<Rightarrow> detection list \<Rightarrow> detection list \<Rightarrow> detection list" where
  "nms_loop iou_threshold [] kept = kept"
| "nms_loop iou_threshold (current # rest) kept =
     (if should_keep iou_threshold current kept
      then nms_loop iou_threshold rest (kept @ [current])
      else nms_loop iou_threshold rest kept)"

text \<open>
  \<open>sorted(detections, key=confidence, reverse=True)\<close>: Python reverses the list, sorts
  it stably in ascending order and reverses the result, so that equal keys keep their
  order.
\<close>

definition sorted_dets :: "detection list \<Rightarrow> detection list" where
  "sorted_dets detections = rev (sort_key det_confidence (rev detections))"

definition nms :: "detection list \<Rightarrow> real \<Rightarrow> detection list" where
  "nms detections iou_threshold =
     (if detections = [] then [] else nms_loop iou_threshold (sorted_dets detections) [])"

text \<open>The call of \<open>detect\<close>: \<open>self._nms(all_detections, iou_threshold=0.15)\<close>.\<close>

definition filtered_detections :: "detection list \<Rightarrow> detection list" where
  "filtered_detections all_detections = nms all_detections 0.15"

section \<open>Face embedder (embedder.py)\<close>

text \<open>
  An image is a list of rows of pixels, a pixel the list of its channel values;
  \<open>img_size\<close> is numpy's \<open>size\<close>, the number of scalars. A face crop that is
  \<open>None\<close> in the source is \<open>None\<close> here.
\<close>

type_synonym image = "nat list list list"

definition img_size :: "image \<Rightarrow> nat" where
  "img_size img = sum_list (map (\<lambda>row. sum_list (map length row)) img)"

datatype color_code = COLOR_BGR2GRAY | COLOR_BGR2HSV

type_synonym hog_params = "(int \<times> int) \<times> (int \<times> int) \<times> (int \<times> int) \<times> (int \<times> int) \<times> int"

text \<open>
  The OpenCV functions the embedder calls are outside the repository: they are a
  parameter of the model, and each may raise.
\<close>

record cv2 =
  cv_resize :: "image \<Rightarrow> nat \<times> nat \<Rightarrow> error + image"
  cv_cvtColor :: "image \<Rightarrow> color_code \<Rightarrow> error + image"
  cv_hog_compute :: "hog_params \<Rightarrow> image \<Rightarrow> error + real list"
  cv_calcHist :: "image \<Rightarrow> nat \<Rightarrow> nat \<Rightarrow> real \<times> real \<Rightarrow> error + real list"

text \<open>
  The embedder: \<open>net\<close>, when loaded, stands for \<open>blobFromImage\<close>, \<open>setInput\<close>,
  \<open>forward\<close> and \<open>flatten\<close> together.
\<close>

record FaceEmbedder =
  use_dnn :: bool
  net :: "(image \<Rightarrow> error + real list) option"
  embedding_size :: nat

definition and_then :: "error + 'a \<Rightarrow> ('a \<Rightarrow> error + 'b) \<Rightarrow> error + 'b" where
  "and_then m f = (case m of Inl e \<Rightarrow> Inl e | Inr x \<Rightarrow> f x)"

text \<open>\<open>np.linalg.norm(v)\<close> and \<open>v / (np.linalg.norm(v) + 1e-8)\<close>.\<close>

definition l2_norm :: "real list \<Rightarrow> real" where
  "l2_norm v = sqrt (sum_list (map (\<lambda>x. x * x) v))"

definition l2_normalize :: "real list \<Rightarrow> real list" where
  "l2_normalize v = map (\<lambda>x. x / (l2_norm v + 1 / 10 ^ 8)) v"

text \<open>
  Name resolution in the module embedder.py: the names it binds at module level are the
  imported modules and types and the class itself. Any other name that is not a builtin
  raises \<open>NameError\<close> when it is evaluated.
\<close>

datatype pyobj = Module string | Class string | IntVal int

definition embedder_globals :: "(string \<times> pyobj) list" where
  "embedder_globals =
     [(''cv2'', Module ''cv2''), (''np'', Module ''numpy''),
      (''Optional'', Class ''typing.Optional''), (''Tuple'', Class ''typing.Tuple''),
      (''os'', Module ''os''), (''FaceEmbedder'', Class ''FaceEmbedder'')]"

definition load_name :: "string \<Rightarrow> error + pyobj" where
  "load_name n = (case map_of embedder_globals n of
                    None \<Rightarrow> Inl (NameError n)
                  | Some v \<Rightarrow> Inr v)"

definition as_int :: "pyobj \<Rightarrow> error + int" where
  "as_int v = (case v of IntVal i \<Rightarrow> Inr i | _ \<Rightarrow> Inl TypeError)"

text \<open>
  The body of the \<open>try\<close> of \<open>_compute_feature_embedding\<close>. The window size of the
  HOG descriptor is written \<open>(_64, 128)\<close> in the source: its first component is the
  value of the name \<open>_64\<close>.
\<close>

definition feature_try :: "FaceEmbedder \<Rightarrow> cv2 \<Rightarrow> image \<Rightarrow> error + real list" where
  "feature_try self cv face_crop =
     and_then (cv_resize cv face_crop (100, 100)) (\<lambda>face_resized.
     and_then (cv_cvtColor cv face_resized COLOR_BGR2GRAY) (\<lambda>gray.
     and_then (load_name ''_64'') (\<lambda>v.
     and_then (as_int v) (\<lambda>w.
     and_then (cv_hog_compute cv ((w, 128), (8, 8), (4, 4), (8, 8), 9) gray) (\<lambda>hog_features.
     and_then (cv_cvtColor cv face_resized COLOR_BGR2HSV) (\<lambda>hsv.
     and_then (cv_calcHist cv hsv 0 16 (0, 180)) (\<lambda>hist_h.
     and_then (cv_calcHist cv hsv 1 8 (0, 256)) (\<lambda>hist_s.
     and_then (cv_calcHist cv hsv 2 8 (0, 256)) (\<lambda>hist_v.
       (let color_features = hist_h @ hist_s @ hist_v;
            e0 = take 80 hog_features @ take 48 color_features;
            e1 = take (embedding_size self) e0;
            e2 = (if length e1 < embedding_size self
                  then e1 @ replicate (embedding_size self - length e1) 0
                  else e1)
        in Inr (l2_normalize e2)))))))))))"

text \<open>
  \<open>_compute_feature_embedding\<close>: any exception of the body is caught and the result is
  \<open>np.random.randn(embedding_size)\<close>. The generator is a parameter: \<open>randn n\<close> is
  the sample of \<open>n\<close> standard normal values it returns at this call.
\<close>

definition compute_feature_embedding ::
  "FaceEmbedder \<Rightarrow> cv2 \<Rightarrow> (nat \<Rightarrow> real list) \<Rightarrow> image \<Rightarrow> real list" where
  "compute_feature_embedding self cv randn face_crop =
     (case feature_try self cv face_crop of
        Inr e \<Rightarrow> e
      | Inl err \<Rightarrow> randn (embedding_size self))"

text \<open>
  \<open>_compute_dnn_embedding\<close>: on an exception it switches \<open>use_dnn\<close> off and falls back
  to the feature embedding, so the embedder is returned with the result.
\<close>

definition compute_dnn_embedding ::
  "FaceEmbedder \<Rightarrow> cv2 \<Rightarrow> (nat \<Rightarrow> real list) \<Rightarrow> image \<Rightarrow> real list \<times> FaceEmbedder" where
  "compute_dnn_embedding self cv randn face_crop =
     (case net self of
        None \<Rightarrow> (compute_feature_embedding self cv randn face_crop, self\<lparr> use_dnn := False \<rparr>)
      | Some forward \<Rightarrow>
          (case forward face_crop of
             Inr out \<Rightarrow> (l2_normalize out, self)
           | Inl err \<Rightarrow>
               (compute_feature_embedding self cv randn face_crop, self\<lparr> use_dnn := False \<rparr>)))"

definition compute_embedding ::
  "FaceEmbedder \<Rightarrow> cv2 \<Rightarrow> (nat \<Rightarrow> real list) \<Rightarrow> image option \<Rightarrow> real list \<times> FaceEmbedder" where
  "compute_embedding self cv randn face_crop =
     (case face_crop of
        None \<Rightarrow> (replicate (embedding_size self) 0, self)
      | Some img \<Rightarrow>
          if img_size img = 0 then (replicate (embedding_size self) 0, self)
          else if use_dnn self \<and> net self \<noteq> None
               then compute_dnn_embedding self cv randn img
               else (compute_feature_embedding self cv randn img, self))"

text \<open>The embedder as \<open>__init__\<close> leaves it when no model file is found.\<close>

definition embedder_init :: FaceEmbedder where
  "embedder_init = \<lparr> use_dnn = False, net = None, embedding_size = 128 \<rparr>"

text \<open>\<open>np.dot\<close> of two one-dimensional arrays raises when their lengths differ.\<close>

definition np_dot :: "real list \<Rightarrow> real list \<Rightarrow> error + real" where
  "np_dot a b = (if length a \<noteq> length b then Inl ValueError
                 else Inr (sum_list (map2 (*) a b)))"

text \<open>\<open>similarity\<close> does not read the embedder; an argument may be \<open>None\<close>.\<close>

definition similarity :: "real list option \<Rightarrow> real list option \<Rightarrow> error + real" where
  "similarity embedding1 embedding2 =
     (case embedding1 of
        None \<Rightarrow> Inr 0
      | Some a \<Rightarrow>
          (case embedding2 of
             None \<Rightarrow> Inr 0
           | Some b \<Rightarrow>
               if length a = 0 \<or> length b = 0 then Inr 0
               else
                 (let e1 = l2_normalize a;
                      e2 = l2_normalize b
                  in case np_dot e1 e2 of
                       Inl err \<Rightarrow> Inl err
                     | Inr similarity_score \<Rightarrow>
                         Inr (max 0 (min 1 ((similarity_score + 1) / 2))))))"

section \<open>Face verifier (verify.py)\<close>

record FaceVerifier =
  template_embedding :: "real list option"
  similarity_threshold :: real

definition is_enabled :: "FaceVerifier \<Rightarrow> bool" where
  "is_enabled self = (template_embedding self \<noteq> None)"

definition verify :: "FaceVerifier \<Rightarrow> real list option \<Rightarrow> error + (string \<times> real)" where
  "verify self emb =
     (if \<not> is_enabled self then Inr (''OTHER'', 0)
      else case similarity emb (template_embedding self) of
             Inl err \<Rightarrow> Inl err
           | Inr sim \<Rightarrow>
               if sim \<ge> similarity_threshold self then Inr (''ME'', sim)
               else Inr (''OTHER'', sim))"

section \<open>Quantities the properties are stated with\<close>

text \<open>
  The area ratio \<open>decide\<close> computes for a box, and the ratios of the boxes that pass
  the watching heuristic (the "visible faces" of the unverified mode), in the order of
  the boxes.
\<close>

definition area_ratio_of :: "int \<Rightarrow> BoundingBox \<Rightarrow> real" where
  "area_ratio_of frame_area b = area b * of_int frame_area / of_int frame_area"

definition visible_ratios :: "PrivacyDecisionEngine \<Rightarrow> FaceDetectionResult \<Rightarrow> int \<Rightarrow> real list" where
  "visible_ratios self detection_result frame_area =
     filter (\<lambda>r. r \<ge> area_ratio_threshold self)
       (map (area_ratio_of frame_area) (boxes detection_result))"

text \<open>A clock that returns the same value at every read of one tick.\<close>

definition clock_at :: "real \<Rightarrow> clock_reads" where
  "clock_at t = \<lparr> t_safe_start = t, t_time_safe = t, t_history = t \<rparr>"

text \<open>
  The condition under which a safe tick switches privacy off: the time since the start
  of the run of safe ticks (the stored start time, or this tick's when none is stored)
  has reached \<open>debounce_off_seconds\<close>, and the safe-frame counter, this tick
  included, has reached \<open>debounce_off_frames\<close>.
\<close>

definition off_condition :: "PrivacyDecisionEngine \<Rightarrow> clock_reads \<Rightarrow> bool" where
  "off_condition self clk =
     (t_time_safe clk - (case safe_start_time self of None \<Rightarrow> t_safe_start clk | Some t \<Rightarrow> t)
        \<ge> debounce_off_seconds self
      \<and> safe_frame_counter self + 1 \<ge> debounce_off_frames self)"

text \<open>
  The start time a run of safe ticks works with: the stored one, or the one the first
  tick of the run is about to store.
\<close>

definition streak_start :: "PrivacyDecisionEngine \<Rightarrow> tick list \<Rightarrow> real" where
  "streak_start self ts =
     (case safe_start_time self of
        Some T \<Rightarrow> T
      | None \<Rightarrow> (case ts of [] \<Rightarrow> 0 | t # _ \<Rightarrow> t_safe_start (tick_clock t)))"

section \<open>Example inputs\<close>

text \<open>
  An engine with the default parameters; a frame with three faces that all pass the
  watching heuristic; a frame with two faces that pass it and one that does not; a frame
  without faces, and a tick that carries it at a given time.
\<close>

definition default_engine :: PrivacyDecisionEngine where
  "default_engine = init 2 0.02 2 0.8 30 False"

definition three_faces :: FaceDetectionResult where
  "three_faces =
     \<lparr> boxes = [\<lparr> x_min = 0, y_min = 0, x_max = 0.3, y_max = 0.3 \<rparr>,
                \<lparr> x_min = 0.35, y_min = 0, x_max = 0.65, y_max = 0.3 \<rparr>,
                \<lparr> x_min = 0.7, y_min = 0, x_max = 1, y_max = 0.3 \<rparr>],
       confidences = [0.9, 0.9, 0.9],
       timestamp_ms = 0 \<rparr>"

definition mixed_faces :: FaceDetectionResult where
  "mixed_faces =
     \<lparr> boxes = [\<lparr> x_min = 0, y_min = 0, x_max = 0.3, y_max = 0.3 \<rparr>,
                \<lparr> x_min = 0.5, y_min = 0.5, x_max = 0.7, y_max = 0.7 \<rparr>,
                \<lparr> x_min = 0.9, y_min = 0.9, x_max = 1, y_max = 1 \<rparr>],
       confidences = [0.9, 0.9, 0.8],
       timestamp_ms = 0 \<rparr>"

definition no_faces :: FaceDetectionResult where
  "no_faces = \<lparr> boxes = [], confidences = [], timestamp_ms = 0 \<rparr>"

definition safe_tick_at :: "real \<Rightarrow> tick" where
  "safe_tick_at t =
     \<lparr> tick_detection = no_faces, tick_width = 320, tick_height = 240,
       tick_identities = None, tick_clock = clock_at t \<rparr>"

text \<open>
  The kept detections are separated at a threshold when any two of them, at different
  positions, have an IoU of at most the threshold.
\<close>

definition separated :: "real \<Rightarrow> detection list \<Rightarrow> bool" where
  "separated thr ks =
     (\<forall>i < length ks. \<forall>j < length ks. i \<noteq> j \<longrightarrow>
        compute_iou (det_box (ks ! i)) (det_box (ks ! j)) \<le> thr)"

text \<open>
  The factor by which a vector normalised with the guard \<open>1e-8\<close> in the denominator
  falls short of unit length.
\<close>

definition shortfall :: "real list \<Rightarrow> real" where
  "shortfall e = l2_norm e / (l2_norm e + 1 / 10 ^ 8)"

text \<open>
  Two candidates whose IoU is exactly 0.15: squares of 23 pixels, 17 pixels apart, in a
  frame of 64 by 64 pixels, one from the frontal and one from the profile cascade, and a
  third candidate one pixel beside the first; OpenCV
  functions that succeed and return constant features, a generator that returns the
  sample 0.5, ..., 0.5, and a crop of one pixel; a verifier with a two-dimensional
  template and the threshold 0.5.
\<close>

definition det_a :: detection where
  "det_a = \<lparr> det_box = (0, 0, 23 / 64, 23 / 64), det_confidence = 0.9, det_area = 529 / 4096,
             det_cascade = ''frontal'' \<rparr>"

definition det_b :: detection where
  "det_b = \<lparr> det_box = (17 / 64, 0, 5 / 8, 23 / 64), det_confidence = 0.8, det_area = 529 / 4096,
             det_cascade = ''profile'' \<rparr>"

definition det_c :: detection where
  "det_c = \<lparr> det_box = (1 / 64, 0, 3 / 8, 23 / 64), det_confidence = 0.8,
             det_area = 529 / 4096, det_cascade = ''profile'' \<rparr>"

definition example_cv2 :: cv2 where
  "example_cv2 =
     \<lparr> cv_resize = (\<lambda>img sz. Inr img),
       cv_cvtColor = (\<lambda>img code. Inr img),
       cv_hog_compute = (\<lambda>params img. Inr (replicate 100 1)),
       cv_calcHist = (\<lambda>img channel bins range. Inr (replicate bins 1)) \<rparr>"

definition example_randn :: "nat \<Rightarrow> real list" where
  "example_randn n = replicate n (1 / 2)"

definition example_crop :: image where
  "example_crop = [[[10, 20, 30]]]"

definition boundary_verifier :: FaceVerifier where
  "boundary_verifier = \<lparr> template_embedding = Some [1, 0], similarity_threshold = 1 / 2 \<rparr>"

section \<open>The decision engine: counting faces\<close>

lemma count_faces_zero_area:
  "count_faces thr 0 bs acc = (if bs = [] then Inr acc else Inl ZeroDivisionError)"
  by (cases bs; cases acc) simp_all

lemma count_faces_eq:
  "fa \<noteq> 0 \<Longrightarrow>
   count_faces thr fa bs (n, r) =
     Inr (n + int (length (filter (\<lambda>x. x \<ge> thr) (map (area_ratio_of fa) bs))),
          fold max (filter (\<lambda>x. x \<ge> thr) (map (area_ratio_of fa) bs)) r)"
proof (induction bs arbitrary: n r)
  case Nil
  then show ?case by simp
next
  case (Cons b bs)
  then show ?case
    by (simp add: Let_def area_ratio_of_def max.commute)
qed

lemma fold_max_Max:
  fixes r :: real
  shows "fold max xs r = Max (insert r (set xs))"
proof (induction xs arbitrary: r)
  case Nil
  then show ?case by simp
next
  case (Cons x xs)
  have "fold max (x # xs) r = Max (insert (max x r) (set xs))"
    using Cons.IH by simp
  also have "\<dots> = Max (insert r (set (x # xs)))"
  proof (cases "set xs = {}")
    case True
    then show ?thesis by (simp add: max.commute)
  next
    case False
    then show ?thesis
      by (simp add: max.assoc max.left_commute max.commute)
  qed
  finally show ?case .
qed

lemma fold_max_nonneg:
  fixes xs :: "real list"
  assumes "\<forall>x \<in> set xs. 0 \<le> x"
  shows "fold max xs 0 = (if xs = [] then 0 else Max (set xs))"
proof (cases "xs = []")
  case True
  then show ?thesis by simp
next
  case False
  then have ne: "set xs \<noteq> {}" by simp
  have "Max (insert 0 (set xs)) = max 0 (Max (set xs))"
    using ne by simp
  also have "\<dots> = Max (set xs)"
  proof -
    obtain x where "x \<in> set xs" using False by (cases xs) auto
    then have "0 \<le> x" "x \<le> Max (set xs)" using assms by auto
    then show ?thesis by simp
  qed
  finally show ?thesis using False by (simp add: fold_max_Max)
qed

lemma assess_unverified_eq:
  assumes "fa \<noteq> 0"
  shows "assess_unverified self dr fa =
     Inr (max 0 (int (length (visible_ratios self dr fa)) - 1),
          fold max (visible_ratios self dr fa) 0,
          (if visible_ratios self dr fa = [] then 0 else 1),
          int (length (boxes dr)))"
  using assms by (simp add: assess_unverified_def count_faces_eq visible_ratios_def filter_map)

lemma assess_unverified_zero:
  "assess_unverified self dr 0 = Inr (n, r, m, t) \<Longrightarrow> boxes dr = [] \<and> n = 0 \<and> r = 0"
  by (auto simp: assess_unverified_def count_faces_zero_area split: if_splits)

lemma assess_mode:
  "(use_identity_verification self \<longrightarrow> ids = None) \<Longrightarrow>
   assess self dr fa ids = assess_unverified self dr fa"
  by (auto simp: assess_def split: option.splits)

lemma visible_ratios_nonneg:
  assumes "\<forall>b \<in> set (boxes dr). 0 \<le> area b"
  shows "\<forall>x \<in> set (visible_ratios self dr fa). 0 \<le> x"
  using assms by (auto simp: visible_ratios_def area_ratio_of_def)

section \<open>The decision engine: one call of decide\<close>

lemma debounce_config:
  "debounce self clk n r m t = (s, why) \<Longrightarrow>
     face_count_threshold s = face_count_threshold self
   \<and> area_ratio_threshold s = area_ratio_threshold self
   \<and> debounce_on_frames s = debounce_on_frames self
   \<and> debounce_off_seconds s = debounce_off_seconds self
   \<and> debounce_off_frames s = debounce_off_frames self
   \<and> use_identity_verification s = use_identity_verification self
   \<and> decision_history s = decision_history self"
  by (auto simp: debounce_def Let_def split: if_splits option.splits)

lemma decide_Inr:
  assumes "decide self dr fw fh ids clk = Inr (d, s')"
  obtains n r m t s why where
    "assess self dr (fw * fh) ids = Inr (n, r, m, t)"
    "debounce self clk n r m t = (s, why)"
    "d = \<lparr> decision_privacy_on = privacy_on s, reason = why, risk_score = r, other_face_count = n \<rparr>"
    "s' = s\<lparr> decision_history :=
              drop (length (decision_history s) + 1 - 100)
                   (decision_history s @ [(t_history clk, d)]) \<rparr>"
proof -
  from assms obtain n r m t where a: "assess self dr (fw * fh) ids = Inr (n, r, m, t)"
    by (auto simp: decide_def Let_def split: sum.splits)
  obtain s why where b: "debounce self clk n r m t = (s, why)"
    by (cases "debounce self clk n r m t") auto
  from assms a b show ?thesis
    by (intro that[OF a b]) (auto simp: decide_def Let_def)
qed

lemma decide_total:
  assumes "assess self dr (fw * fh) ids = Inr a"
  shows "\<exists>d s'. decide self dr fw fh ids clk = Inr (d, s')"
  using assms by (cases a) (auto simp: decide_def Let_def split: prod.splits)

lemma decide_config:
  assumes "decide self dr fw fh ids clk = Inr (d, s')"
  shows "face_count_threshold s' = face_count_threshold self
       \<and> area_ratio_threshold s' = area_ratio_threshold self
       \<and> debounce_on_frames s' = debounce_on_frames self
       \<and> debounce_off_seconds s' = debounce_off_seconds self
       \<and> debounce_off_frames s' = debounce_off_frames self
       \<and> use_identity_verification s' = use_identity_verification self"
proof -
  from assms obtain n r m t s why where
    a: "assess self dr (fw * fh) ids = Inr (n, r, m, t)" and
    b: "debounce self clk n r m t = (s, why)" and
    d: "d = \<lparr> decision_privacy_on = privacy_on s, reason = why, risk_score = r, other_face_count = n \<rparr>" and
    s': "s' = s\<lparr> decision_history :=
              drop (length (decision_history s) + 1 - 100)
                   (decision_history s @ [(t_history clk, d)]) \<rparr>"
    by (rule decide_Inr)
  from debounce_config[OF b] s' show ?thesis by simp
qed

lemma decide_history:
  assumes "decide self dr fw fh ids clk = Inr (d, s')"
  shows "decision_history s' =
           drop (length (decision_history self) + 1 - 100)
                (decision_history self @ [(t_history clk, d)])"
proof -
  from assms obtain n r m t s why where
    a: "assess self dr (fw * fh) ids = Inr (n, r, m, t)" and
    b: "debounce self clk n r m t = (s, why)" and
    d: "d = \<lparr> decision_privacy_on = privacy_on s, reason = why, risk_score = r, other_face_count = n \<rparr>" and
    s': "s' = s\<lparr> decision_history :=
              drop (length (decision_history s) + 1 - 100)
                   (decision_history s @ [(t_history clk, d)]) \<rparr>"
    by (rule decide_Inr)
  from debounce_config[OF b] have "decision_history s = decision_history self" by simp
  with s' show ?thesis by simp
qed

lemma decide_safe:
  assumes "decide self dr fw fh ids clk = Inr (d, s')"
      and "other_face_count d < face_count_threshold self"
  shows "privacy_on s' = (privacy_on self \<and> \<not> off_condition self clk)
       \<and> decision_privacy_on d = privacy_on s'
       \<and> safe_start_time s' =
           Some (case safe_start_time self of None \<Rightarrow> t_safe_start clk | Some t \<Rightarrow> t)
       \<and> safe_frame_counter s' =
           (if off_condition self clk then 0 else safe_frame_counter self + 1)
       \<and> risk_counter s' = 0"
proof -
  from assms(1) obtain n r m t s why where
    a: "assess self dr (fw * fh) ids = Inr (n, r, m, t)" and
    b: "debounce self clk n r m t = (s, why)" and
    d: "d = \<lparr> decision_privacy_on = privacy_on s, reason = why, risk_score = r, other_face_count = n \<rparr>" and
    s': "s' = s\<lparr> decision_history :=
              drop (length (decision_history s) + 1 - 100)
                   (decision_history s @ [(t_history clk, d)]) \<rparr>"
    by (rule decide_Inr)
  have n: "n < face_count_threshold self" using assms(2) d by simp
  have "privacy_on s = (privacy_on self \<and> \<not> off_condition self clk)
       \<and> safe_start_time s =
           Some (case safe_start_time self of None \<Rightarrow> t_safe_start clk | Some t \<Rightarrow> t)
       \<and> safe_frame_counter s =
           (if off_condition self clk then 0 else safe_frame_counter self + 1)
       \<and> risk_counter s = 0"
    using b n by (auto simp: debounce_def Let_def off_condition_def split: if_splits option.splits)
  then show ?thesis using d s' by simp
qed

lemma decide_risky:
  assumes "decide self dr fw fh ids clk = Inr (d, s')"
      and "other_face_count d \<ge> face_count_threshold self"
  shows "privacy_on s' = (privacy_on self \<or> risk_counter self + 1 \<ge> debounce_on_frames self)
       \<and> decision_privacy_on d = privacy_on s'
       \<and> safe_start_time s' = None
       \<and> safe_frame_counter s' = 0
       \<and> risk_counter s' = risk_counter self + 1"
proof -
  from assms(1) obtain n r m t s why where
    a: "assess self dr (fw * fh) ids = Inr (n, r, m, t)" and
    b: "debounce self clk n r m t = (s, why)" and
    d: "d = \<lparr> decision_privacy_on = privacy_on s, reason = why, risk_score = r, other_face_count = n \<rparr>" and
    s': "s' = s\<lparr> decision_history :=
              drop (length (decision_history s) + 1 - 100)
                   (decision_history s @ [(t_history clk, d)]) \<rparr>"
    by (rule decide_Inr)
  have n: "n \<ge> face_count_threshold self" using assms(2) d by simp
  have "privacy_on s = (privacy_on self \<or> risk_counter self + 1 \<ge> debounce_on_frames self)
       \<and> safe_start_time s = None
       \<and> safe_frame_counter s = 0
       \<and> risk_counter s = risk_counter self + 1"
    using b n by (auto simp: debounce_def Let_def split: if_splits)
  then show ?thesis using d s' by simp
qed

lemma decide_unverified_result:
  assumes "use_identity_verification self \<longrightarrow> ids = None" and "fw * fh \<noteq> 0"
  shows "\<exists>d s'. decide self dr fw fh ids clk = Inr (d, s')
          \<and> other_face_count d = max 0 (int (length (visible_ratios self dr (fw * fh))) - 1)"
proof -
  have a: "assess self dr (fw * fh) ids =
     Inr (max 0 (int (length (visible_ratios self dr (fw * fh))) - 1),
          fold max (visible_ratios self dr (fw * fh)) 0,
          (if visible_ratios self dr (fw * fh) = [] then 0 else 1),
          int (length (boxes dr)))"
    using assess_mode[OF assms(1)] assess_unverified_eq[OF assms(2)] by simp
  from decide_total[OF a] obtain d s' where d: "decide self dr fw fh ids clk = Inr (d, s')"
    by blast
  from d obtain n r m t s why where
    a': "assess self dr (fw * fh) ids = Inr (n, r, m, t)" and
    b: "debounce self clk n r m t = (s, why)" and
    dd: "d = \<lparr> decision_privacy_on = privacy_on s, reason = why, risk_score = r, other_face_count = n \<rparr>" and
    s': "s' = s\<lparr> decision_history :=
              drop (length (decision_history s) + 1 - 100)
                   (decision_history s @ [(t_history clk, d)]) \<rparr>"
    by (rule decide_Inr)
  from a a' dd have "other_face_count d = max 0 (int (length (visible_ratios self dr (fw * fh))) - 1)"
    by simp
  with d show ?thesis by blast
qed

text \<open>
  Claim C8. A call of \<open>decide\<close> in the unverified mode (no identities are passed, or
  identity verification is switched off), on boxes of non-negative area: when the frame
  area is not zero the call returns a decision, and every decision it returns has
  \<open>other_face_count = max 0 (visible_count - 1)\<close>, where \<open>visible_count\<close> is the
  number of boxes whose area ratio is at least \<open>area_ratio_threshold\<close>, and a
  \<open>risk_score\<close> that is the largest of these ratios, or 0 when there is none.
\<close>

theorem decide_unverified_counts:
  assumes mode: "use_identity_verification self \<longrightarrow> identities = None"
      and wf: "\<forall>b \<in> set (boxes dr). 0 \<le> area b"
  shows "(fw * fh \<noteq> 0 \<longrightarrow> (\<exists>d s'. decide self dr fw fh identities clk = Inr (d, s')))
       \<and> (\<forall>d s'. decide self dr fw fh identities clk = Inr (d, s') \<longrightarrow>
            other_face_count d = max 0 (int (length (visible_ratios self dr (fw * fh))) - 1)
          \<and> risk_score d = (if visible_ratios self dr (fw * fh) = [] then 0
                             else Max (set (visible_ratios self dr (fw * fh)))))"
proof (intro conjI allI impI)
  assume nz: "fw * fh \<noteq> 0"
  show "\<exists>d s'. decide self dr fw fh identities clk = Inr (d, s')"
    using decide_total[of self dr fw fh identities] assess_mode[OF mode]
          assess_unverified_eq[OF nz] by simp
next
  fix d s'
  assume dec: "decide self dr fw fh identities clk = Inr (d, s')"
  from dec obtain n r m t s why where
    a: "assess self dr (fw * fh) identities = Inr (n, r, m, t)" and
    b: "debounce self clk n r m t = (s, why)" and
    d: "d = \<lparr> decision_privacy_on = privacy_on s, reason = why, risk_score = r, other_face_count = n \<rparr>" and
    s': "s' = s\<lparr> decision_history :=
              drop (length (decision_history s) + 1 - 100)
                   (decision_history s @ [(t_history clk, d)]) \<rparr>"
    by (rule decide_Inr)
  have au: "assess_unverified self dr (fw * fh) = Inr (n, r, m, t)"
    using a assess_mode[OF mode] by simp
  have nr: "n = max 0 (int (length (visible_ratios self dr (fw * fh))) - 1)
          \<and> r = fold max (visible_ratios self dr (fw * fh)) 0"
  proof (cases "fw * fh = 0")
    case True
    with au have "boxes dr = [] \<and> n = 0 \<and> r = 0"
      using assess_unverified_zero by simp
    then show ?thesis by (simp add: visible_ratios_def)
  next
    case False
    then show ?thesis using au assess_unverified_eq[OF False, of self dr] by simp
  qed
  show "other_face_count d = max 0 (int (length (visible_ratios self dr (fw * fh))) - 1)"
    using nr d by simp
  show "risk_score d = (if visible_ratios self dr (fw * fh) = [] then 0
                        else Max (set (visible_ratios self dr (fw * fh))))"
    using nr d fold_max_nonneg[OF visible_ratios_nonneg[OF wf]] by simp
qed

theorem decide_unverified_counts_witness:
  "\<exists>d s'. decide default_engine mixed_faces 320 240 None (clock_at 0) = Inr (d, s')
       \<and> other_face_count d = 1 \<and> risk_score d = 9 / 100"
proof -
  have m: "use_identity_verification default_engine \<longrightarrow> (None :: FaceIdentity list option) = None"
    by simp
  have wf: "\<forall>b \<in> set (boxes mixed_faces). 0 \<le> area b"
    by (simp add: mixed_faces_def area_def width_def height_def)
  have vr: "visible_ratios default_engine mixed_faces (320 * 240) = [9 / 100, 4 / 100]"
    by (simp add: visible_ratios_def default_engine_def init_def mixed_faces_def
          area_ratio_of_def area_def width_def height_def)
  from decide_unverified_counts[OF m wf, of 320 240 "clock_at 0"] vr show ?thesis
    by auto
qed

section \<open>The decision engine: sequences of calls\<close>

lemma run_history:
  assumes "run self ts = Inr (ds, s')" "length (decision_history self) \<le> 100"
  shows "decision_history s' =
           drop (length (decision_history self) + length ts - 100)
                (decision_history self @ zip (map (\<lambda>t. t_history (tick_clock t)) ts) ds)
         \<and> length ds = length ts"
  using assms
proof (induction ts arbitrary: self ds)
  case Nil
  then show ?case by simp
next
  case (Cons t ts)
  from Cons.prems(1) obtain d s1 ds1 where
    d: "decide self (tick_detection t) (tick_width t) (tick_height t)
          (tick_identities t) (tick_clock t) = Inr (d, s1)" and
    r: "run s1 ts = Inr (ds1, s')" and ds: "ds = d # ds1"
    by (auto split: sum.splits)
  let ?h = "decision_history self"
  let ?x = "(t_history (tick_clock t), d)"
  have h1: "decision_history s1 = drop (length ?h + 1 - 100) (?h @ [?x])"
    using decide_history[OF d] .
  then have len1: "length (decision_history s1) \<le> 100"
    using Cons.prems(2) by simp
  from Cons.IH[OF r len1] have
    ih: "decision_history s' =
           drop (length (decision_history s1) + length ts - 100)
                (decision_history s1 @ zip (map (\<lambda>t. t_history (tick_clock t)) ts) ds1)"
    and l: "length ds1 = length ts" by simp_all
  let ?z = "zip (map (\<lambda>t. t_history (tick_clock t)) ts) ds1"
  have "decision_history s' = drop (length ?h + length (t # ts) - 100) (?h @ ?x # ?z)"
  proof (cases "length ?h = 100")
    case True
    then have s1: "decision_history s1 = drop 1 ?h @ [?x]" using h1 by simp
    have ne: "?h \<noteq> []" using True by auto
    have "drop 1 (?h @ ?x # ?z) = drop 1 ?h @ ?x # ?z"
      using ne by (cases ?h) simp_all
    then have "drop (length ts) (drop 1 ?h @ ?x # ?z) = drop (Suc (length ts)) (?h @ ?x # ?z)"
      by (metis drop_drop Suc_eq_plus1)
    moreover have "decision_history s' = drop (length ts) (drop 1 ?h @ ?x # ?z)"
      using ih s1 True by simp
    ultimately show ?thesis using True by simp
  next
    case False
    then have "decision_history s1 = ?h @ [?x]" using h1 Cons.prems(2) by simp
    then show ?thesis using ih by simp
  qed
  then show ?case using ds l by simp
qed

lemma safe_streak:
  assumes "run self ts = Inr (ds, s')"
      and "\<forall>d \<in> set ds. other_face_count d < face_count_threshold self"
  shows "privacy_on s' =
           (privacy_on self \<and>
            (\<forall>k < length ts.
               \<not> (t_time_safe (tick_clock (ts ! k)) - streak_start self ts \<ge> debounce_off_seconds self
                  \<and> safe_frame_counter self + int k + 1 \<ge> debounce_off_frames self)))
       \<and> (privacy_on s' \<longrightarrow> (\<forall>d \<in> set ds. decision_privacy_on d))"
  using assms
proof (induction ts arbitrary: self ds)
  case Nil
  then show ?case by simp
next
  case (Cons t ts)
  from Cons.prems(1) obtain d s1 ds1 where
    d: "decide self (tick_detection t) (tick_width t) (tick_height t)
          (tick_identities t) (tick_clock t) = Inr (d, s1)" and
    r: "run s1 ts = Inr (ds1, s')" and ds: "ds = d # ds1"
    by (auto split: sum.splits)
  let ?T = "streak_start self (t # ts)"
  have T: "?T = (case safe_start_time self of None \<Rightarrow> t_safe_start (tick_clock t) | Some x \<Rightarrow> x)"
    by (simp add: streak_start_def split: option.splits)
  let ?off = "off_condition self (tick_clock t)"
  have off: "?off = (t_time_safe (tick_clock t) - ?T \<ge> debounce_off_seconds self
                     \<and> safe_frame_counter self + 1 \<ge> debounce_off_frames self)"
    by (simp add: off_condition_def T)
  have safe_d: "other_face_count d < face_count_threshold self"
    using Cons.prems(2) ds by simp
  note st = decide_safe[OF d safe_d]
  note cf = decide_config[OF d]
  have T1: "streak_start s1 ts = ?T"
    using st T by (simp add: streak_start_def)
  have safe_rest: "\<forall>d \<in> set ds1. other_face_count d < face_count_threshold s1"
    using Cons.prems(2) ds cf by simp
  note ih = Cons.IH[OF r safe_rest]
  let ?c = "\<lambda>tk cnt. \<not> (t_time_safe (tick_clock tk) - ?T \<ge> debounce_off_seconds self
                  \<and> cnt \<ge> debounce_off_frames self)"
  have ih1: "privacy_on s' =
      (privacy_on s1 \<and> (\<forall>k < length ts. ?c (ts ! k) (safe_frame_counter s1 + int k + 1)))"
    using ih T1 cf by simp
  have split_all: "(\<forall>k < length (t # ts). ?c ((t # ts) ! k) (safe_frame_counter self + int k + 1))
        = (?c t (safe_frame_counter self + 1)
           \<and> (\<forall>k < length ts. ?c (ts ! k) (safe_frame_counter self + int (Suc k) + 1)))"
    by (simp add: All_less_Suc2)
  show ?case
  proof (cases ?off)
    case True
    then have "\<not> privacy_on s1" using st by simp
    then have "\<not> privacy_on s'" using ih1 by simp
    moreover have "\<not> ?c t (safe_frame_counter self + 1)" using True off by simp
    ultimately show ?thesis using split_all by simp
  next
    case False
    then have p1: "privacy_on s1 = privacy_on self"
      and c1: "safe_frame_counter s1 = safe_frame_counter self + 1" using st by simp_all
    have c0: "?c t (safe_frame_counter self + 1)" using False off by simp
    have "(\<forall>k < length ts. ?c (ts ! k) (safe_frame_counter s1 + int k + 1))
        = (\<forall>k < length ts. ?c (ts ! k) (safe_frame_counter self + int (Suc k) + 1))"
      using c1 by (simp add: algebra_simps)
    then have main: "privacy_on s' =
           (privacy_on self
            \<and> (\<forall>k < length (t # ts). ?c ((t # ts) ! k) (safe_frame_counter self + int k + 1)))"
      using ih1 p1 c0 split_all by simp
    have "privacy_on s' \<longrightarrow> (\<forall>d \<in> set ds. decision_privacy_on d)"
      using ih ih1 st ds by auto
    then show ?thesis using main by simp
  qed
qed

lemma run_safe_ticks:
  assumes "use_identity_verification self = False"
  shows "\<exists>ds s'. run self (map safe_tick_at tms) = Inr (ds, s')
           \<and> (\<forall>d \<in> set ds. other_face_count d = 0)"
  using assms
proof (induction tms arbitrary: self)
  case Nil
  then show ?case by simp
next
  case (Cons t tms)
  have m: "use_identity_verification self \<longrightarrow> (None :: FaceIdentity list option) = None" by simp
  from decide_unverified_result[OF m, of 320 240 no_faces "clock_at t"]
  obtain d s1 where d: "decide self no_faces 320 240 None (clock_at t) = Inr (d, s1)"
    and oc: "other_face_count d = 0"
    by (auto simp: visible_ratios_def no_faces_def)
  from decide_config[OF d] Cons.prems have "use_identity_verification s1 = False" by simp
  from Cons.IH[OF this] obtain ds s' where
    r: "run s1 (map safe_tick_at tms) = Inr (ds, s')" and
    z: "\<forall>d \<in> set ds. other_face_count d = 0" by blast
  have "run self (map safe_tick_at (t # tms)) = Inr (d # ds, s')"
    using d r by (simp add: safe_tick_at_def)
  then show ?case using oc z by auto
qed

lemma three_faces_risky:
  assumes "area_ratio_threshold self = 0.02" "use_identity_verification self = False"
  shows "\<exists>d s'. decide self three_faces 320 240 None clk = Inr (d, s') \<and> other_face_count d = 2"
proof -
  have m: "use_identity_verification self \<longrightarrow> (None :: FaceIdentity list option) = None"
    by simp
  have vr: "length (visible_ratios self three_faces (320 * 240)) = 3"
    using assms(1)
    by (simp add: visible_ratios_def three_faces_def area_ratio_of_def area_def width_def height_def)
  from decide_unverified_result[OF m, of 320 240 three_faces clk] vr show ?thesis
    by auto
qed

lemma two_risky_ticks:
  "\<exists>d1 s1 d2 s2.
      decide default_engine three_faces 320 240 None (clock_at 0) = Inr (d1, s1)
    \<and> other_face_count d1 = 2
    \<and> decide s1 three_faces 320 240 None (clock_at (1 / 10)) = Inr (d2, s2)
    \<and> other_face_count d2 = 2
    \<and> privacy_on s2 \<and> safe_frame_counter s2 = 0 \<and> safe_start_time s2 = None
    \<and> face_count_threshold s2 = 2 \<and> debounce_off_seconds s2 = 0.8
    \<and> debounce_off_frames s2 = 30 \<and> use_identity_verification s2 = False"
proof -
  have c0: "area_ratio_threshold default_engine = 0.02"
    "use_identity_verification default_engine = False"
    "face_count_threshold default_engine = 2" "debounce_on_frames default_engine = 2"
    "debounce_off_seconds default_engine = 0.8" "debounce_off_frames default_engine = 30"
    "risk_counter default_engine = 0"
    by (simp_all add: default_engine_def init_def)
  from three_faces_risky[OF c0(1,2)] obtain d1 s1 where
    d1: "decide default_engine three_faces 320 240 None (clock_at 0) = Inr (d1, s1)"
    and o1: "other_face_count d1 = 2" by blast
  note cf1 = decide_config[OF d1]
  have "other_face_count d1 \<ge> face_count_threshold default_engine" using o1 c0 by simp
  note r1 = decide_risky[OF d1 this]
  have a1: "area_ratio_threshold s1 = 0.02" and u1: "use_identity_verification s1 = False"
    using cf1 c0 by simp_all
  from three_faces_risky[OF a1 u1, of "clock_at (1 / 10)"] obtain d2 s2 where
    d2: "decide s1 three_faces 320 240 None (clock_at (1 / 10)) = Inr (d2, s2)"
    and o2: "other_face_count d2 = 2" by blast
  note cf2 = decide_config[OF d2]
  have "other_face_count d2 \<ge> face_count_threshold s1" using o2 cf1 c0 by simp
  note r2 = decide_risky[OF d2 this]
  have "privacy_on s2" using r2 r1 cf1 c0 by simp
  then show ?thesis using d1 o1 d2 o2 r2 cf2 cf1 c0 by auto
qed

text \<open>
  Claim C9. After any sequence of \<open>decide\<close> calls on a freshly constructed engine, the
  decision history has at most 100 entries, and it holds the most recent decisions (with
  the times at which they were appended), in the order in which they were made.
\<close>

theorem decision_history_bounded:
  assumes "run (init fct art don doff_s doff_f uiv) ts = Inr (ds, s')"
  shows "length (decision_history s') \<le> 100
       \<and> decision_history s' =
           drop (length ts - 100) (zip (map (\<lambda>t. t_history (tick_clock t)) ts) ds)
       \<and> map snd (decision_history s') = drop (length ds - 100) ds
       \<and> length ds = length ts"
proof -
  have h0: "decision_history (init fct art don doff_s doff_f uiv) = []"
    by (simp add: init_def)
  from run_history[OF assms] h0 have
    eq: "decision_history s' =
           drop (length ts - 100) (zip (map (\<lambda>t. t_history (tick_clock t)) ts) ds)"
    and l: "length ds = length ts" by simp_all
  have "length (decision_history s') \<le> 100"
    using eq l by simp
  moreover have "map snd (decision_history s') = drop (length ds - 100) ds"
    using eq l by (simp add: drop_map[symmetric] del: drop_map)
  ultimately show ?thesis using eq l by simp
qed

theorem decision_history_bounded_witness:
  "\<exists>ds s'. run default_engine (map safe_tick_at (map real [0..<150])) = Inr (ds, s')
       \<and> length (decision_history s') \<le> 100
       \<and> map snd (decision_history s') = drop 50 ds"
proof -
  have "use_identity_verification default_engine = False"
    by (simp add: default_engine_def init_def)
  from run_safe_ticks[OF this, of "map real [0..<150]"] obtain ds s' where
    r: "run default_engine (map safe_tick_at (map real [0..<150])) = Inr (ds, s')" by blast
  from decision_history_bounded[OF r[unfolded default_engine_def]] r show ?thesis
    by auto
qed

text \<open>
  Claim C2. On a freshly constructed engine with \<open>face_count_threshold = 2\<close>,
  \<open>area_ratio_threshold = 0.02\<close>, \<open>debounce_on_frames = 2\<close>,
  \<open>debounce_off_seconds = 0.8\<close> and \<open>debounce_off_frames = 30\<close>, two consecutive
  ticks that each yield \<open>other_face_count = 2\<close> leave \<open>privacy_on\<close> false after the
  first call and make it true after the second.
\<close>

theorem on_after_second_risky_tick:
  assumes "decide (init 2 0.02 2 0.8 30 uiv) dr1 w1 h1 ids1 clk1 = Inr (d1, s1)"
      and "other_face_count d1 = 2"
      and "decide s1 dr2 w2 h2 ids2 clk2 = Inr (d2, s2)"
      and "other_face_count d2 = 2"
  shows "\<not> privacy_on s1 \<and> \<not> decision_privacy_on d1 \<and> privacy_on s2 \<and> decision_privacy_on d2"
proof -
  let ?e = "init 2 0.02 2 0.8 30 uiv"
  have r1: "other_face_count d1 \<ge> face_count_threshold ?e"
    using assms(2) by (simp add: init_def)
  note a = decide_risky[OF assms(1) r1] and c = decide_config[OF assms(1)]
  have r2: "other_face_count d2 \<ge> face_count_threshold s1"
    using assms(4) c by (simp add: init_def)
  note b = decide_risky[OF assms(3) r2]
  have "\<not> privacy_on s1" "risk_counter s1 = 1" using a by (simp_all add: init_def)
  moreover have "debounce_on_frames s1 = 2" using c by (simp add: init_def)
  ultimately show ?thesis using a b by simp
qed

theorem on_after_second_risky_tick_witness:
  "\<exists>d1 s1 d2 s2.
      decide (init 2 0.02 2 0.8 30 False) three_faces 320 240 None (clock_at 0) = Inr (d1, s1)
    \<and> other_face_count d1 = 2
    \<and> decide s1 three_faces 320 240 None (clock_at (1 / 10)) = Inr (d2, s2)
    \<and> other_face_count d2 = 2
    \<and> \<not> privacy_on s1 \<and> \<not> decision_privacy_on d1 \<and> privacy_on s2 \<and> decision_privacy_on d2"
proof -
  from two_risky_ticks obtain d1 s1 d2 s2 where
    a: "decide (init 2 0.02 2 0.8 30 False) three_faces 320 240 None (clock_at 0) = Inr (d1, s1)"
    and b: "other_face_count d1 = 2"
    and c: "decide s1 three_faces 320 240 None (clock_at (1 / 10)) = Inr (d2, s2)"
    and d: "other_face_count d2 = 2"
    unfolding default_engine_def by blast
  from on_after_second_risky_tick[OF a b c d] a b c d show ?thesis by blast
qed

text \<open>
  Claim C1. A safe tick (one whose \<open>other_face_count\<close> is below
  \<open>face_count_threshold\<close>) on an engine with \<open>privacy_on\<close> set switches it off if
  and only if both the time since the first tick of the run of safe ticks has reached
  \<open>debounce_off_seconds\<close> and the safe-frame counter has reached
  \<open>debounce_off_frames\<close>; when one of the two fails, \<open>privacy_on\<close> keeps its value.
  Over a run of safe ticks that starts right after a risky tick, \<open>privacy_on\<close> is
  still set at the end exactly when no tick of the run met both conditions. With the
  defaults 0.8 s and 30 frames, 40 safe ticks 10 ms apart leave it on, and so do 5 safe
  ticks 1 s apart.
\<close>

theorem off_transition_requires_both:
  "(decide self dr fw fh ids clk = Inr (d, s')
      \<and> other_face_count d < face_count_threshold self \<longrightarrow>
        (privacy_on self \<longrightarrow> (\<not> privacy_on s' \<longleftrightarrow> off_condition self clk))
      \<and> (\<not> off_condition self clk \<longrightarrow> privacy_on s' = privacy_on self)
      \<and> decision_privacy_on d = privacy_on s')
 \<and> (run e ts = Inr (ds, e')
      \<and> (\<forall>x \<in> set ds. other_face_count x < face_count_threshold e)
      \<and> privacy_on e \<and> safe_frame_counter e = 0 \<and> safe_start_time e = None \<longrightarrow>
        (privacy_on e' \<longleftrightarrow>
           (\<forall>k < length ts.
              \<not> (t_time_safe (tick_clock (ts ! k)) - t_safe_start (tick_clock (ts ! 0))
                    \<ge> debounce_off_seconds e
                 \<and> int k + 1 \<ge> debounce_off_frames e))))
 \<and> (run a ta = Inr (da, a')
      \<and> (\<forall>x \<in> set da. other_face_count x < face_count_threshold a)
      \<and> privacy_on a \<and> safe_frame_counter a = 0 \<and> safe_start_time a = None
      \<and> debounce_off_seconds a = 0.8 \<and> debounce_off_frames a = 30
      \<and> length ta = 40 \<and> (\<forall>i < 40. tick_clock (ta ! i) = clock_at (t0 + real i / 100)) \<longrightarrow>
        privacy_on a' \<and> (\<forall>x \<in> set da. decision_privacy_on x))
 \<and> (run b tb = Inr (db, b')
      \<and> (\<forall>x \<in> set db. other_face_count x < face_count_threshold b)
      \<and> privacy_on b \<and> safe_frame_counter b = 0 \<and> safe_start_time b = None
      \<and> debounce_off_seconds b = 0.8 \<and> debounce_off_frames b = 30
      \<and> length tb = 5 \<and> (\<forall>i < 5. tick_clock (tb ! i) = clock_at (t1 + real i)) \<longrightarrow>
        privacy_on b' \<and> (\<forall>x \<in> set db. decision_privacy_on x))"
  (is "?P1 \<and> ?P2 \<and> ?P3 \<and> ?P4")
proof -
  have p1: ?P1
  proof (intro impI conjI)
    assume h: "decide self dr fw fh ids clk = Inr (d, s')
        \<and> other_face_count d < face_count_threshold self"
    then have st: "privacy_on s' = (privacy_on self \<and> \<not> off_condition self clk)"
      "decision_privacy_on d = privacy_on s'"
      using decide_safe[of self dr fw fh ids clk d s'] by simp_all
    show "decision_privacy_on d = privacy_on s'" using st by simp
    { assume "privacy_on self"
      then show "\<not> privacy_on s' \<longleftrightarrow> off_condition self clk" using st by simp }
    { assume "\<not> off_condition self clk"
      then show "privacy_on s' = privacy_on self" using st by simp }
  qed
  have p2: ?P2
  proof (intro impI)
    assume h: "run e ts = Inr (ds, e')
        \<and> (\<forall>x \<in> set ds. other_face_count x < face_count_threshold e)
        \<and> privacy_on e \<and> safe_frame_counter e = 0 \<and> safe_start_time e = None"
    have T: "ts \<noteq> [] \<Longrightarrow> streak_start e ts = t_safe_start (tick_clock (ts ! 0))"
      using h by (cases ts) (simp_all add: streak_start_def)
    from h safe_streak[of e ts ds e'] have
      "privacy_on e' = (\<forall>k < length ts.
                 \<not> (t_time_safe (tick_clock (ts ! k)) - streak_start e ts \<ge> debounce_off_seconds e
                    \<and> int k + 1 \<ge> debounce_off_frames e))"
      by simp
    then show "privacy_on e' \<longleftrightarrow>
             (\<forall>k < length ts.
                \<not> (t_time_safe (tick_clock (ts ! k)) - t_safe_start (tick_clock (ts ! 0))
                      \<ge> debounce_off_seconds e
                   \<and> int k + 1 \<ge> debounce_off_frames e))"
      using T by (cases "ts = []") simp_all
  qed
  have p3: ?P3
  proof (intro impI)
    assume h: "run a ta = Inr (da, a')
        \<and> (\<forall>x \<in> set da. other_face_count x < face_count_threshold a)
        \<and> privacy_on a \<and> safe_frame_counter a = 0 \<and> safe_start_time a = None
        \<and> debounce_off_seconds a = 0.8 \<and> debounce_off_frames a = 30
        \<and> length ta = 40 \<and> (\<forall>i < 40. tick_clock (ta ! i) = clock_at (t0 + real i / 100))"
    then have ne: "ta \<noteq> []" by auto
    from h have clocks: "\<forall>i < 40. tick_clock (ta ! i) = clock_at (t0 + real i / 100)" by simp
    from clocks[rule_format, of 0] have c0: "tick_clock (ta ! 0) = clock_at t0" by simp
    have "streak_start a ta = t_safe_start (tick_clock (ta ! 0))"
      using h ne by (cases ta) (simp_all add: streak_start_def)
    then have T: "streak_start a ta = t0"
      using c0 by (simp add: clock_at_def)
    have "\<forall>k < length ta. \<not> (t_time_safe (tick_clock (ta ! k)) - streak_start a ta
                                 \<ge> debounce_off_seconds a
                              \<and> safe_frame_counter a + int k + 1 \<ge> debounce_off_frames a)"
    proof (intro allI impI)
      fix k assume k: "k < length ta"
      then have "tick_clock (ta ! k) = clock_at (t0 + real k / 100)"
        using h clocks[rule_format, of k] by simp
      then have "t_time_safe (tick_clock (ta ! k)) - streak_start a ta = real k / 100"
        using T by (simp add: clock_at_def)
      moreover have "real k / 100 < 0.8" using k h by simp
      ultimately show "\<not> (t_time_safe (tick_clock (ta ! k)) - streak_start a ta
                                 \<ge> debounce_off_seconds a
                              \<and> safe_frame_counter a + int k + 1 \<ge> debounce_off_frames a)"
        using h by simp
    qed
    with h safe_streak[of a ta da a'] have "privacy_on a'" by simp
    with h safe_streak[of a ta da a'] show "privacy_on a' \<and> (\<forall>x \<in> set da. decision_privacy_on x)"
      by simp
  qed
  have p4: ?P4
  proof (intro impI)
    assume h: "run b tb = Inr (db, b')
        \<and> (\<forall>x \<in> set db. other_face_count x < face_count_threshold b)
        \<and> privacy_on b \<and> safe_frame_counter b = 0 \<and> safe_start_time b = None
        \<and> debounce_off_seconds b = 0.8 \<and> debounce_off_frames b = 30
        \<and> length tb = 5 \<and> (\<forall>i < 5. tick_clock (tb ! i) = clock_at (t1 + real i))"
    have "\<forall>k < length tb. \<not> (t_time_safe (tick_clock (tb ! k)) - streak_start b tb
                                 \<ge> debounce_off_seconds b
                              \<and> safe_frame_counter b + int k + 1 \<ge> debounce_off_frames b)"
      using h by auto
    with h safe_streak[of b tb db b'] have "privacy_on b'" by simp
    with h safe_streak[of b tb db b'] show "privacy_on b' \<and> (\<forall>x \<in> set db. decision_privacy_on x)"
      by simp
  qed
  show ?thesis using p1 p2 p3 p4 by (intro conjI)
qed

theorem off_transition_requires_both_witness:
  "\<exists>d1 s1 d2 s2 da a' db b'.
      decide default_engine three_faces 320 240 None (clock_at 0) = Inr (d1, s1)
    \<and> decide s1 three_faces 320 240 None (clock_at (1 / 10)) = Inr (d2, s2)
    \<and> privacy_on s2
    \<and> run s2 (map safe_tick_at (map (\<lambda>i. 1 + real i / 100) [0..<40])) = Inr (da, a')
    \<and> (\<forall>x \<in> set da. other_face_count x < face_count_threshold s2)
    \<and> privacy_on a' \<and> (\<forall>x \<in> set da. decision_privacy_on x)
    \<and> run s2 (map safe_tick_at (map (\<lambda>i. 1 + real i) [0..<5])) = Inr (db, b')
    \<and> (\<forall>x \<in> set db. other_face_count x < face_count_threshold s2)
    \<and> privacy_on b' \<and> (\<forall>x \<in> set db. decision_privacy_on x)"
proof -
  from two_risky_ticks obtain d1 s1 d2 s2 where
    d1: "decide default_engine three_faces 320 240 None (clock_at 0) = Inr (d1, s1)"
    and d2: "decide s1 three_faces 320 240 None (clock_at (1 / 10)) = Inr (d2, s2)"
    and st: "privacy_on s2" "safe_frame_counter s2 = 0" "safe_start_time s2 = None"
      "face_count_threshold s2 = 2" "debounce_off_seconds s2 = 0.8"
      "debounce_off_frames s2 = 30" "use_identity_verification s2 = False"
    by blast
  let ?ta = "map safe_tick_at (map (\<lambda>i. 1 + real i / 100) [0..<40])"
  let ?tb = "map safe_tick_at (map (\<lambda>i. 1 + real i) [0..<5])"
  from run_safe_ticks[OF st(7), of "map (\<lambda>i. 1 + real i / 100) [0..<40]"] obtain da a' where
    ra: "run s2 ?ta = Inr (da, a')" and za: "\<forall>x \<in> set da. other_face_count x = 0" by blast
  from run_safe_ticks[OF st(7), of "map (\<lambda>i. 1 + real i) [0..<5]"] obtain db b' where
    rb: "run s2 ?tb = Inr (db, b')" and zb: "\<forall>x \<in> set db. other_face_count x = 0" by blast
  have sa: "\<forall>x \<in> set da. other_face_count x < face_count_threshold s2" using za st by simp
  have sb: "\<forall>x \<in> set db. other_face_count x < face_count_threshold s2" using zb st by simp
  have la: "length ?ta = 40" by simp
  have ca: "\<forall>i < 40. tick_clock (?ta ! i) = clock_at (1 + real i / 100)"
    by (simp add: safe_tick_at_def)
  have lb: "length ?tb = 5" by simp
  have cb: "\<forall>i < 5. tick_clock (?tb ! i) = clock_at (1 + real i)"
    by (simp add: safe_tick_at_def)
  note inst = off_transition_requires_both[of s2 no_faces 320 240 None "clock_at 1" _ _ s2 ?ta da a' s2 ?ta da a' 1 s2 ?tb db b' 1]
  from inst ra sa st la ca have A: "privacy_on a' \<and> (\<forall>x \<in> set da. decision_privacy_on x)"
    by blast
  from inst rb sb st lb cb have B: "privacy_on b' \<and> (\<forall>x \<in> set db. decision_privacy_on x)"
    by blast
  from d1 d2 st ra sa A rb sb B show ?thesis by blast
qed

section \<open>The detector: overlap suppression\<close>

lemma compute_iou_sym: "compute_iou a b = compute_iou b a"
  by (cases a; cases b) (simp add: compute_iou_def Let_def max.commute min.commute add.commute)

lemma should_keep_iff:
  "should_keep thr c ks = (\<forall>k \<in> set ks. compute_iou (det_box c) (det_box k) \<le> thr)"
  by (induction ks) (auto simp: not_less)

lemma separated_snoc:
  assumes "separated thr ks" "should_keep thr c ks"
  shows "separated thr (ks @ [c])"
  unfolding separated_def
proof (intro allI impI)
  fix i j
  assume i: "i < length (ks @ [c])" and j: "j < length (ks @ [c])" and ne: "i \<noteq> j"
  from assms(2) have keep: "\<forall>k \<in> set ks. compute_iou (det_box c) (det_box k) \<le> thr"
    by (simp add: should_keep_iff)
  consider "i < length ks" "j < length ks" | "i < length ks" "j = length ks"
    | "i = length ks" "j < length ks"
    using i j ne by (auto simp: less_Suc_eq)
  then show "compute_iou (det_box ((ks @ [c]) ! i)) (det_box ((ks @ [c]) ! j)) \<le> thr"
  proof cases
    case 1
    then show ?thesis using assms(1) ne by (simp add: separated_def nth_append)
  next
    case 2
    then have "ks ! i \<in> set ks" by simp
    then have "compute_iou (det_box c) (det_box (ks ! i)) \<le> thr" using keep by blast
    then show ?thesis using 2 by (simp add: nth_append compute_iou_sym)
  next
    case 3
    then have "ks ! j \<in> set ks" by simp
    then have "compute_iou (det_box c) (det_box (ks ! j)) \<le> thr" using keep by blast
    then show ?thesis using 3 by (simp add: nth_append)
  qed
qed

lemma nms_loop_separated:
  "separated thr kept \<Longrightarrow> separated thr (nms_loop thr ds kept)"
  by (induction ds arbitrary: kept) (auto simp: separated_snoc)

lemma nms_separated: "separated thr (nms ds thr)"
proof -
  have "separated thr []" by (simp add: separated_def)
  then have "separated thr (nms_loop thr (sorted_dets ds) [])"
    by (rule nms_loop_separated)
  then show ?thesis using \<open>separated thr []\<close> by (simp add: nms_def)
qed

lemma nms_loop_mono: "set kept \<subseteq> set (nms_loop thr ds kept)"
proof (induction ds arbitrary: kept)
  case Nil
  then show ?case by simp
next
  case (Cons c ds)
  show ?case
  proof (cases "should_keep thr c kept")
    case True
    have "set kept \<subseteq> set (kept @ [c])" by auto
    also have "\<dots> \<subseteq> set (nms_loop thr ds (kept @ [c]))" by (rule Cons.IH)
    finally show ?thesis using True by simp
  next
    case False
    then show ?thesis using Cons.IH[of kept] by simp
  qed
qed

lemma nms_loop_subset: "set (nms_loop thr ds kept) \<subseteq> set kept \<union> set ds"
proof (induction ds arbitrary: kept)
  case Nil
  then show ?case by simp
next
  case (Cons c ds)
  show ?case
  proof (cases "should_keep thr c kept")
    case True
    then show ?thesis using Cons.IH[of "kept @ [c]"] by auto
  next
    case False
    then show ?thesis using Cons.IH[of kept] by auto
  qed
qed

lemma nms_loop_dropped:
  assumes "d \<in> set ds" "d \<notin> set (nms_loop thr ds kept)"
  shows "\<exists>k \<in> set (nms_loop thr ds kept). compute_iou (det_box d) (det_box k) > thr"
  using assms
proof (induction ds arbitrary: kept)
  case Nil
  then show ?case by simp
next
  case (Cons c ds)
  show ?case
  proof (cases "should_keep thr c kept")
    case True
    then have r: "nms_loop thr (c # ds) kept = nms_loop thr ds (kept @ [c])" by simp
    have "c \<in> set (nms_loop thr ds (kept @ [c]))"
      using nms_loop_mono[of "kept @ [c]" thr ds] by auto
    then have "d \<noteq> c" using Cons.prems(2) r by auto
    then have "d \<in> set ds" using Cons.prems(1) by simp
    then show ?thesis using Cons.IH[of "kept @ [c]"] Cons.prems(2) r by simp
  next
    case False
    then have r: "nms_loop thr (c # ds) kept = nms_loop thr ds kept" by simp
    show ?thesis
    proof (cases "d = c")
      case True
      from False obtain k where k: "k \<in> set kept"
        "compute_iou (det_box c) (det_box k) > thr"
        by (auto simp: should_keep_iff not_le)
      then have "k \<in> set (nms_loop thr ds kept)" using nms_loop_mono[of kept thr ds] by auto
      then show ?thesis using k True r by auto
    next
      case False
      then have "d \<in> set ds" using Cons.prems(1) by simp
      then show ?thesis using Cons.IH[of kept] Cons.prems(2) r by simp
    qed
  qed
qed

lemma set_sorted_dets: "set (sorted_dets ds) = set ds"
  by (simp add: sorted_dets_def)

lemma nms_subset: "set (nms ds thr) \<subseteq> set ds"
  using nms_loop_subset[of thr "sorted_dets ds" "[]"]
  by (auto simp: nms_def set_sorted_dets)

lemma nms_dropped:
  assumes "d \<in> set ds" "d \<notin> set (nms ds thr)"
  shows "\<exists>k \<in> set (nms ds thr). compute_iou (det_box d) (det_box k) > thr"
proof -
  from assms(1) have ne: "ds \<noteq> []" by auto
  then have eq: "nms ds thr = nms_loop thr (sorted_dets ds) []" by (simp add: nms_def)
  from assms(1) have "d \<in> set (sorted_dets ds)" by (simp add: set_sorted_dets)
  from nms_loop_dropped[OF this, of thr "[]"] assms(2) eq show ?thesis by simp
qed

lemma iou_a_b: "compute_iou (det_box det_a) (det_box det_b) = 0.15"
  by (simp add: compute_iou_def det_a_def det_b_def Let_def)

lemma iou_b_a: "compute_iou (det_box det_b) (det_box det_a) = 0.15"
  using iou_a_b by (simp add: compute_iou_sym)

lemma sorted_a_b: "sorted_dets [det_a, det_b] = [det_a, det_b]"
  by (simp add: sorted_dets_def det_a_def det_b_def)

lemma filtered_a_b: "filtered_detections [det_a, det_b] = [det_a, det_b]"
  by (simp add: filtered_detections_def nms_def sorted_a_b iou_b_a)

lemma iou_c_a: "compute_iou (det_box det_c) (det_box det_a) = 11 / 12"
  by (simp add: compute_iou_def det_a_def det_c_def Let_def)

lemma sorted_a_b_c: "sorted_dets [det_a, det_b, det_c] = [det_a, det_b, det_c]"
  by (simp add: sorted_dets_def det_a_def det_b_def det_c_def)

lemma filtered_a_b_c: "filtered_detections [det_a, det_b, det_c] = [det_a, det_b]"
  by (simp add: filtered_detections_def nms_def sorted_a_b_c iou_b_a iou_c_a)

lemma det_c_distinct: "det_c \<noteq> det_a \<and> det_c \<noteq> det_b"
  by (simp add: det_a_def det_b_def det_c_def)

text \<open>
  Claim C3, as stated: any two boxes the detector's suppression retains have an IoU
  strictly below 0.15. It fails: the two candidates \<open>det_a\<close> and \<open>det_b\<close> have an IoU
  of exactly 0.15 and both are retained, since a candidate is dropped only when its IoU
  with a kept one is greater than the threshold.
\<close>

theorem kept_boxes_iou_not_strict_counterexample:
  "filtered_detections [det_a, det_b] = [det_a, det_b]
   \<and> \<not> compute_iou (det_box det_a) (det_box det_b) < 0.15"
  by (simp add: filtered_a_b iou_a_b)

text \<open>
  Claim C3, amended: any two boxes the detector's suppression retains, at different
  positions of its result, have an IoU of at most 0.15; every retained detection is one
  of the candidates; and every candidate that is not retained has an IoU strictly greater
  than 0.15 with a retained one.
\<close>

theorem kept_boxes_iou_at_most_threshold:
  "(i < length (filtered_detections ds) \<and> j < length (filtered_detections ds) \<and> i \<noteq> j \<longrightarrow>
      compute_iou (det_box (filtered_detections ds ! i)) (det_box (filtered_detections ds ! j))
        \<le> 0.15)
 \<and> set (filtered_detections ds) \<subseteq> set ds
 \<and> (d \<in> set ds \<and> d \<notin> set (filtered_detections ds) \<longrightarrow>
      (\<exists>k \<in> set (filtered_detections ds). compute_iou (det_box d) (det_box k) > 0.15))"
proof -
  have a: "i < length (filtered_detections ds) \<and> j < length (filtered_detections ds) \<and> i \<noteq> j \<longrightarrow>
      compute_iou (det_box (filtered_detections ds ! i)) (det_box (filtered_detections ds ! j))
        \<le> 0.15"
    using nms_separated[of "0.15" ds]
    unfolding filtered_detections_def separated_def by blast
  have b: "set (filtered_detections ds) \<subseteq> set ds"
    unfolding filtered_detections_def by (rule nms_subset)
  have c: "d \<in> set ds \<and> d \<notin> set (filtered_detections ds) \<longrightarrow>
      (\<exists>k \<in> set (filtered_detections ds). compute_iou (det_box d) (det_box k) > 0.15)"
    unfolding filtered_detections_def using nms_dropped[of d ds "0.15"] by blast
  show ?thesis using a b c by (intro conjI)
qed

theorem kept_boxes_iou_at_most_threshold_witness:
  "(0::nat) < length (filtered_detections [det_a, det_b, det_c])
   \<and> (1::nat) < length (filtered_detections [det_a, det_b, det_c]) \<and> (0::nat) \<noteq> 1
   \<and> compute_iou (det_box (filtered_detections [det_a, det_b, det_c] ! 0))
                  (det_box (filtered_detections [det_a, det_b, det_c] ! 1)) \<le> 0.15
   \<and> det_c \<in> set [det_a, det_b, det_c]
   \<and> det_c \<notin> set (filtered_detections [det_a, det_b, det_c])
   \<and> (\<exists>k \<in> set (filtered_detections [det_a, det_b, det_c]).
         compute_iou (det_box det_c) (det_box k) > 0.15)"
  using kept_boxes_iou_at_most_threshold[of 0 "[det_a, det_b, det_c]" 1 det_c] det_c_distinct
  by (simp add: filtered_a_b_c)

section \<open>The embedder\<close>

lemma load_name_64: "load_name ''_64'' = Inl (NameError ''_64'')"
  by (simp add: load_name_def embedder_globals_def)

lemma feature_try_raises: "\<exists>err. feature_try self cv face_crop = Inl err"
  by (auto simp: feature_try_def and_then_def load_name_64 split: sum.splits)

lemma feature_embedding_fallback:
  "compute_feature_embedding self cv randn face_crop = randn (embedding_size self)"
proof -
  from feature_try_raises obtain err where "feature_try self cv face_crop = Inl err" by blast
  then show ?thesis by (simp add: compute_feature_embedding_def)
qed

lemma example_embedding:
  "fst (compute_embedding embedder_init example_cv2 example_randn (Some example_crop))
     = replicate 128 (1 / 2)"
  by (simp add: compute_embedding_def embedder_init_def feature_embedding_fallback
        example_randn_def example_crop_def img_size_def)

text \<open>
  Claim C4 says that, without the pretrained model, \<open>compute_embedding\<close> returns the
  normalised concatenation of the HOG and colour features of a non-empty crop. The code
  does not: the name \<open>_64\<close> in the body of the \<open>try\<close> is bound nowhere, so the body
  raises \<open>NameError\<close> whatever OpenCV computes, and the result is the random sample.
  In the example OpenCV succeeds and returns features, and the result is the sample.
\<close>

theorem feature_embedding_always_fallback:
  "compute_feature_embedding self cv randn face_crop = randn (embedding_size self)
   \<and> fst (compute_embedding embedder_init example_cv2 example_randn (Some example_crop))
       = replicate 128 (1 / 2)"
  by (simp add: feature_embedding_fallback example_embedding)

text \<open>
  Claim C5 says that the fallback vector is a unit vector. The code returns the sample of
  the generator as it is: for the sample 0.5, ..., 0.5 the result has 128 entries and the
  norm \<open>sqrt 32\<close>, not 1.
\<close>

theorem fallback_embedding_not_unit:
  "fst (compute_embedding embedder_init example_cv2 example_randn (Some example_crop))
     = replicate 128 (1 / 2)
   \<and> l2_norm (fst (compute_embedding embedder_init example_cv2 example_randn (Some example_crop)))
     = sqrt 32
   \<and> l2_norm (fst (compute_embedding embedder_init example_cv2 example_randn (Some example_crop)))
     \<noteq> 1"
proof -
  have "l2_norm (replicate 128 (1 / 2)) = sqrt 32"
    by (simp add: l2_norm_def sum_list_replicate)
  then show ?thesis by (simp add: example_embedding)
qed

section \<open>Similarity\<close>

lemma sum_squares_nonneg: "0 \<le> sum_list (map (\<lambda>x. x * x) (v :: real list))"
  by (induction v) simp_all

lemma l2_norm_nonneg: "0 \<le> l2_norm v"
  by (simp add: l2_norm_def sum_squares_nonneg)

lemma l2_norm_square: "l2_norm v * l2_norm v = sum_list (map (\<lambda>x. x * x) v)"
  by (simp add: l2_norm_def sum_squares_nonneg)

lemma sum_squares_pos:
  "\<exists>x \<in> set v. x \<noteq> 0 \<Longrightarrow> 0 < sum_list (map (\<lambda>x. x * x) (v :: real list))"
proof (induction v)
  case Nil
  then show ?case by simp
next
  case (Cons a v)
  have "0 \<le> a * a" by simp
  show ?case
  proof (cases "a = 0")
    case True
    then show ?thesis using Cons by simp
  next
    case False
    then have "0 < a * a" by (simp add: zero_less_mult_iff less_le)
    then show ?thesis using sum_squares_nonneg[of v] by simp
  qed
qed

lemma l2_norm_pos: "\<exists>x \<in> set v. x \<noteq> 0 \<Longrightarrow> 0 < l2_norm v"
  by (simp add: l2_norm_def sum_squares_pos)

lemma l2_norm_uminus: "l2_norm (map uminus v) = l2_norm v"
  by (simp add: l2_norm_def o_def)

lemma dot_scaled:
  "sum_list (map2 (*) (map (\<lambda>x. x / c) v) (map (\<lambda>x. x / d) w))
     = sum_list (map2 (*) v w) / (c * (d :: real))"
proof (induction v arbitrary: w)
  case Nil
  then show ?case by simp
next
  case (Cons a v)
  then show ?case by (cases w) (simp_all add: add_divide_distrib)
qed

lemma dot_self: "sum_list (map2 (*) v v) = sum_list (map (\<lambda>x. x * x) (v :: real list))"
  by (induction v) simp_all

lemma dot_uminus:
  "sum_list (map2 (*) v (map uminus v)) = - sum_list (map (\<lambda>x. x * x) (v :: real list))"
  by (induction v) simp_all

lemma dot_commute: "sum_list (map2 (*) v w) = sum_list (map2 (*) w (v :: real list))"
proof (induction v arbitrary: w)
  case Nil
  then show ?case by simp
next
  case (Cons a v)
  then show ?case by (cases w) (simp_all add: mult.commute)
qed

lemma np_dot_commute: "np_dot a b = np_dot b a"
  using dot_commute[of a b] by (auto simp: np_dot_def)

lemma similarity_commute: "similarity a b = similarity b a"
  by (cases a; cases b) (auto simp: similarity_def Let_def np_dot_commute)

lemma similarity_range: "similarity a b = Inr s \<Longrightarrow> 0 \<le> s \<and> s \<le> 1"
  by (cases a; cases b) (auto simp: similarity_def Let_def split: if_splits sum.splits)

lemma shortfall_bounds:
  assumes "\<exists>x \<in> set e. x \<noteq> 0"
  shows "0 < shortfall e \<and> shortfall e < 1"
  using l2_norm_pos[OF assms] by (simp add: shortfall_def)

lemma normalized_dot:
  "np_dot (l2_normalize v) (l2_normalize w) =
     (if length v \<noteq> length w then Inl ValueError
      else Inr (sum_list (map2 (*) v w)
                 / ((l2_norm v + 1 / 10 ^ 8) * (l2_norm w + 1 / 10 ^ 8))))"
  by (simp add: np_dot_def l2_normalize_def dot_scaled)

lemma similarity_self:
  assumes "\<exists>x \<in> set e. x \<noteq> 0"
  shows "similarity (Some e) (Some e) = Inr ((1 + shortfall e * shortfall e) / 2)"
proof -
  from assms have ne: "e \<noteq> []" by auto
  have b: "0 < shortfall e" "shortfall e < 1" using shortfall_bounds[OF assms] by simp_all
  have d: "sum_list (map2 (*) e e) / ((l2_norm e + 1 / 10 ^ 8) * (l2_norm e + 1 / 10 ^ 8))
             = shortfall e * shortfall e"
    by (simp add: dot_self l2_norm_square[symmetric] shortfall_def)
  define q where "q = shortfall e * shortfall e"
  have "q < 1 * 1"
    unfolding q_def using b by (intro mult_strict_mono) simp_all
  moreover have "0 \<le> q" unfolding q_def by simp
  ultimately have "max 0 (min 1 ((q + 1) / 2)) = (1 + q) / 2"
    by (simp add: max_def min_def)
  then have "max 0 (min 1 ((shortfall e * shortfall e + 1) / 2))
                     = (1 + shortfall e * shortfall e) / 2"
    by (simp add: q_def)
  then show ?thesis using ne d by (simp add: similarity_def Let_def normalized_dot)
qed

lemma similarity_opposite:
  assumes "\<exists>x \<in> set e. x \<noteq> 0"
  shows "similarity (Some e) (Some (map uminus e)) = Inr ((1 - shortfall e * shortfall e) / 2)"
proof -
  from assms have ne: "e \<noteq> []" by auto
  have b: "0 < shortfall e" "shortfall e < 1" using shortfall_bounds[OF assms] by simp_all
  have d: "sum_list (map2 (*) e (map uminus e))
             / ((l2_norm e + 1 / 10 ^ 8) * (l2_norm (map uminus e) + 1 / 10 ^ 8))
             = - (shortfall e * shortfall e)"
    by (simp add: dot_uminus l2_norm_uminus l2_norm_square[symmetric] shortfall_def)
  define q where "q = shortfall e * shortfall e"
  have "q < 1 * 1"
    unfolding q_def using b by (intro mult_strict_mono) simp_all
  moreover have "0 \<le> q" unfolding q_def by simp
  ultimately have "max 0 (min 1 ((- q + 1) / 2)) = (1 - q) / 2"
    by (simp add: max_def min_def)
  then have "max 0 (min 1 ((- (shortfall e * shortfall e) + 1) / 2))
                     = (1 - shortfall e * shortfall e) / 2"
    by (simp add: q_def)
  then show ?thesis using ne d by (simp add: similarity_def Let_def normalized_dot)
qed

lemma similarity_self_bounds:
  assumes "\<exists>x \<in> set e. x \<noteq> 0"
  shows "\<exists>s. similarity (Some e) (Some e) = Inr s \<and> 1 / 2 \<le> s \<and> s \<le> 1"
proof -
  define q where "q = shortfall e * shortfall e"
  have b: "0 < shortfall e" "shortfall e < 1" using shortfall_bounds[OF assms] by simp_all
  have "q < 1 * 1" unfolding q_def using b by (intro mult_strict_mono) simp_all
  moreover have "0 \<le> q" unfolding q_def by simp
  ultimately have bounds: "1 / 2 \<le> (1 + q) / 2 \<and> (1 + q) / 2 \<le> 1" by simp
  have "similarity (Some e) (Some e) = Inr ((1 + q) / 2)"
    using similarity_self[OF assms] unfolding q_def .
  with bounds show ?thesis by blast
qed

lemma similarity_opposite_bounds:
  assumes "\<exists>x \<in> set e. x \<noteq> 0"
  shows "\<exists>t. similarity (Some e) (Some (map uminus e)) = Inr t \<and> 0 \<le> t \<and> t \<le> 1 / 2"
proof -
  define q where "q = shortfall e * shortfall e"
  have b: "0 < shortfall e" "shortfall e < 1" using shortfall_bounds[OF assms] by simp_all
  have "q < 1 * 1" unfolding q_def using b by (intro mult_strict_mono) simp_all
  moreover have "0 \<le> q" unfolding q_def by simp
  ultimately have bounds: "0 \<le> (1 - q) / 2 \<and> (1 - q) / 2 \<le> 1 / 2" by simp
  have "similarity (Some e) (Some (map uminus e)) = Inr ((1 - q) / 2)"
    using similarity_opposite[OF assms] unfolding q_def .
  with bounds show ?thesis by blast
qed

lemma similarity_returns:
  "length a = length b \<Longrightarrow> \<exists>s. similarity (Some a) (Some b) = Inr s"
  by (simp add: similarity_def Let_def normalized_dot)

lemma shortfall_one: "shortfall [1] = 100000000 / 100000001"
  by (simp add: shortfall_def l2_norm_def)

lemma l2_normalize_zeros: "l2_normalize (replicate n 0) = replicate n 0"
  by (simp add: l2_normalize_def)

lemma dot_zeros: "length w = n \<Longrightarrow> sum_list (map2 (*) (replicate n 0) (w :: real list)) = 0"
proof (induction n arbitrary: w)
  case 0
  then show ?case by simp
next
  case (Suc n)
  then show ?case by (cases w) simp_all
qed

lemma l2_norm_zeros: "l2_norm (replicate n 0) = 0"
proof -
  have "sum_list (map (\<lambda>x. x * x) (replicate n (0 :: real))) = 0"
    by (induction n) simp_all
  then show ?thesis by (simp add: l2_norm_def)
qed

lemma similarity_zero_vector:
  assumes "length v = n" "0 < n"
  shows "similarity (Some (replicate n 0)) (Some v) = Inr (1 / 2)"
proof -
  have "np_dot (l2_normalize (replicate n 0)) (l2_normalize v) = Inr 0"
    using assms dot_zeros[of "l2_normalize v" n]
    by (simp add: l2_normalize_zeros np_dot_def) (simp add: l2_normalize_def)
  then show ?thesis using assms by (simp add: similarity_def Let_def)
qed

lemma similarity_orthogonal: "similarity (Some [0, 1]) (Some [1, 0]) = Inr (1 / 2)"
  by (simp add: similarity_def Let_def np_dot_def l2_normalize_def l2_norm_def)

text \<open>
  Claim C6, as stated: \<open>similarity(e, e)\<close> is exactly 1.0 and \<open>similarity(e, -e)\<close>
  exactly 0.0 for every non-zero \<open>e\<close>. It fails at \<open>e = [1]\<close>: the guard \<open>1e-8\<close> in
  the denominator leaves the normalised vectors shorter than unit length.
\<close>

theorem similarity_self_not_exact_counterexample:
  "similarity (Some [1]) (Some [1]) \<noteq> Inr 1 \<and> similarity (Some [1]) (Some [- 1]) \<noteq> Inr 0"
proof -
  have ne: "\<exists>x \<in> set [1 :: real]. x \<noteq> 0" by simp
  show ?thesis
    using similarity_self[OF ne] similarity_opposite[OF ne]
    by (simp add: shortfall_one)
qed

text \<open>
  Claim C6, amended: for every non-zero \<open>e\<close>, \<open>similarity(e, e)\<close> lies between 0.5
  and 1.0 and \<open>similarity(e, -e)\<close> between 0.0 and 0.5, the ends included; every value
  \<open>similarity\<close> returns lies in [0, 1], and \<open>similarity\<close> is symmetric in its
  arguments.
\<close>

theorem similarity_self_opposite:
  assumes "\<exists>x \<in> set e. x \<noteq> 0"
  shows "(\<exists>s. similarity (Some e) (Some e) = Inr s \<and> 1 / 2 \<le> s \<and> s \<le> 1)
       \<and> (\<exists>t. similarity (Some e) (Some (map uminus e)) = Inr t \<and> 0 \<le> t \<and> t \<le> 1 / 2)
       \<and> (similarity a b = Inr v \<longrightarrow> 0 \<le> v \<and> v \<le> 1)
       \<and> similarity a b = similarity b a"
  using similarity_self_bounds[OF assms] similarity_opposite_bounds[OF assms]
        similarity_range[of a b v] similarity_commute[of a b]
  by blast

theorem similarity_self_opposite_witness:
  "(\<exists>x \<in> set [1 :: real]. x \<noteq> 0)
   \<and> (\<exists>s. similarity (Some [1]) (Some [1]) = Inr s \<and> 1 / 2 \<le> s \<and> s \<le> 1)
   \<and> (\<exists>t. similarity (Some [1]) (Some [- 1]) = Inr t \<and> 0 \<le> t \<and> t \<le> 1 / 2)
   \<and> similarity (Some [1]) (Some [- 1]) = similarity (Some [- 1]) (Some [1])"
proof -
  have ne: "\<exists>x \<in> set [1 :: real]. x \<noteq> 0" by simp
  have m: "map uminus [1 :: real] = [- 1]" by simp
  from similarity_self_opposite[OF ne, of "Some [1]" "Some [- 1]"] ne m show ?thesis
    by metis
qed

text \<open>
  Claim C10. For a crop that is \<open>None\<close> or has size zero, \<open>compute_embedding\<close>
  returns the zero vector of length 128 and raises nothing; the norm of this vector is 0,
  not 1; and the similarity of the zero vector with any vector of length 128 is 0.5.
\<close>

theorem empty_crop_zero_embedding:
  assumes "embedding_size self = 128"
  shows "compute_embedding self cv randn None = (replicate 128 0, self)
       \<and> (img_size img = 0 \<longrightarrow> compute_embedding self cv randn (Some img) = (replicate 128 0, self))
       \<and> l2_norm (replicate 128 0) = 0
       \<and> l2_norm (replicate 128 0) \<noteq> 1
       \<and> (length v = 128 \<longrightarrow> similarity (Some (replicate 128 0)) (Some v) = Inr (1 / 2)
                              \<and> similarity (Some v) (Some (replicate 128 0)) = Inr (1 / 2))"
proof -
  have a: "compute_embedding self cv randn None = (replicate 128 0, self)"
    using assms by (simp add: compute_embedding_def)
  have b: "img_size img = 0 \<longrightarrow> compute_embedding self cv randn (Some img) = (replicate 128 0, self)"
    using assms by (simp add: compute_embedding_def)
  have c: "l2_norm (replicate 128 0) = 0" by (rule l2_norm_zeros)
  have d: "length v = 128 \<longrightarrow> similarity (Some (replicate 128 0)) (Some v) = Inr (1 / 2)
                              \<and> similarity (Some v) (Some (replicate 128 0)) = Inr (1 / 2)"
    using similarity_zero_vector[of v 128] similarity_commute[of "Some v"] by simp
  show ?thesis using a b c d by simp
qed

theorem empty_crop_zero_embedding_witness:
  "embedding_size embedder_init = 128
   \<and> img_size [] = 0
   \<and> length (replicate 128 (1 :: real)) = 128
   \<and> compute_embedding embedder_init example_cv2 example_randn None
        = (replicate 128 0, embedder_init)
   \<and> compute_embedding embedder_init example_cv2 example_randn (Some [])
        = (replicate 128 0, embedder_init)
   \<and> similarity (Some (replicate 128 0)) (Some (replicate 128 1)) = Inr (1 / 2)"
proof -
  have h: "embedding_size embedder_init = 128" by (simp add: embedder_init_def)
  have i: "img_size [] = 0" by (simp add: img_size_def)
  from empty_crop_zero_embedding[OF h, of example_cv2 example_randn "[]" "replicate 128 1"] h i
  show ?thesis by simp
qed

section \<open>The verifier\<close>

text \<open>
  Claim C7. Without a template \<open>verify\<close> returns \<open>("OTHER", 0.0)\<close>. With a template
  it returns the similarity of the embedding and the template, with the label \<open>"ME"\<close>
  (the spec's SELF) exactly when the similarity is at least the threshold, the case of
  equality included, and \<open>"OTHER"\<close> otherwise; it returns whenever the embedding and
  the template have the same length.
\<close>

theorem verify_labels:
  "(template_embedding self = None \<longrightarrow> verify self emb = Inr (''OTHER'', 0))
 \<and> (template_embedding self = Some t \<and> similarity emb (Some t) = Inr s \<longrightarrow>
       verify self emb = Inr (if s \<ge> similarity_threshold self then ''ME'' else ''OTHER'', s))
 \<and> (template_embedding self = Some t \<and> similarity emb (Some t) = Inr s
       \<and> s = similarity_threshold self \<longrightarrow> verify self emb = Inr (''ME'', s))
 \<and> (template_embedding self = Some t \<and> emb = Some a \<and> length a = length t \<longrightarrow>
       (\<exists>l s. verify self emb = Inr (l, s)))"
  using similarity_returns[of a t] by (auto simp: verify_def is_enabled_def)

theorem verify_labels_witness:
  "template_embedding boundary_verifier = Some [1, 0]
   \<and> similarity (Some [0, 1]) (Some [1, 0]) = Inr (1 / 2)
   \<and> 1 / 2 = similarity_threshold boundary_verifier
   \<and> verify boundary_verifier (Some [0, 1]) = Inr (''ME'', 1 / 2)
   \<and> verify (boundary_verifier\<lparr> template_embedding := None \<rparr>) (Some [0, 1]) = Inr (''OTHER'', 0)"
proof -
  have a: "template_embedding boundary_verifier = Some [1, 0]"
    and b: "similarity_threshold boundary_verifier = 1 / 2"
    by (simp_all add: boundary_verifier_def)
  have c: "template_embedding (boundary_verifier\<lparr> template_embedding := None \<rparr>) = None" by simp
  from verify_labels[of boundary_verifier "Some [0, 1]" "[1, 0]" "1 / 2"] a b similarity_orthogonal
  have "verify boundary_verifier (Some [0, 1]) = Inr (''ME'', 1 / 2)" by simp
  moreover from verify_labels[of "boundary_verifier\<lparr> template_embedding := None \<rparr>" "Some [0, 1]"] c
  have "verify (boundary_verifier\<lparr> template_embedding := None \<rparr>) (Some [0, 1]) = Inr (''OTHER'', 0)"
    by simp
  ultimately show ?thesis using a b similarity_orthogonal by simp
qed

end
